theory Spec2Isabelle
  imports Complex_Main "HOL-Library.AList" "HOL-Library.Multiset"
begin

section \<open>JavaScript values\<close>

text \<open>
  The carbon-emissions map is written in JavaScript.  Its numbers are modelled by
  \<open>jsnum\<close>: a real number, one of the two infinities, or NaN.  Rounding to double
  precision and the sign of zero are not modelled; every other case distinction the code
  can observe (NaN, infinities, zero being falsy) is.  Coordinates and zoom levels are
  computed from finite operands only and are plain reals.  The one place where rounding
  is modelled is the placement of a trip around its route centre: whether the trip stays
  within a given distance of the centre depends on it.
\<close>

datatype jsnum = NaN | PosInf | NegInf | Fin real

fun js_add :: "jsnum \<Rightarrow> jsnum \<Rightarrow> jsnum" where
  "js_add (Fin a) (Fin b) = Fin (a + b)"
| "js_add NaN b = NaN"
| "js_add a NaN = NaN"
| "js_add PosInf NegInf = NaN"
| "js_add NegInf PosInf = NaN"
| "js_add PosInf b = PosInf"
| "js_add a PosInf = PosInf"
| "js_add NegInf b = NegInf"
| "js_add a NegInf = NegInf"

fun js_neg :: "jsnum \<Rightarrow> jsnum" where
  "js_neg (Fin a) = Fin (- a)"
| "js_neg PosInf = NegInf"
| "js_neg NegInf = PosInf"
| "js_neg NaN = NaN"

fun js_sign :: "jsnum \<Rightarrow> real" where
  "js_sign (Fin a) = sgn a"
| "js_sign PosInf = 1"
| "js_sign NegInf = - 1"
| "js_sign NaN = 0"

definition js_mul :: "jsnum \<Rightarrow> jsnum \<Rightarrow> jsnum" where
  "js_mul a b =
     (case (a, b) of
        (Fin p, Fin q) \<Rightarrow> Fin (p * q)
      | _ \<Rightarrow>
          if a = NaN \<or> b = NaN \<or> js_sign a * js_sign b = 0 then NaN
          else if js_sign a * js_sign b > 0 then PosInf else NegInf)"

text \<open>Division; a zero divisor is the positive zero.\<close>

definition js_div :: "jsnum \<Rightarrow> jsnum \<Rightarrow> jsnum" where
  "js_div a b =
     (case (a, b) of
        (Fin p, Fin q) \<Rightarrow>
          if q \<noteq> 0 then Fin (p / q)
          else if p = 0 then NaN else if p > 0 then PosInf else NegInf
      | (Fin p, NaN) \<Rightarrow> NaN
      | (Fin p, _) \<Rightarrow> Fin 0
      | (NaN, _) \<Rightarrow> NaN
      | (_, Fin q) \<Rightarrow> if (js_sign a > 0) = (q \<ge> 0) then PosInf else NegInf
      | (_, _) \<Rightarrow> NaN)"

fun js_sqrt :: "jsnum \<Rightarrow> jsnum" where
  "js_sqrt (Fin a) = (if a < 0 then NaN else Fin (sqrt a))"
| "js_sqrt PosInf = PosInf"
| "js_sqrt NegInf = NaN"
| "js_sqrt NaN = NaN"

text \<open>
  A cell of a parsed row that is read as a number or tested for truth: the parser
  (dynamic typing switched on) delivers numbers, booleans, text or null, and a missing
  column reads as undefined.
\<close>

datatype jsval = JUndefined | JNull | JBool bool | JNum jsnum | JStr string

fun truthy :: "jsval \<Rightarrow> bool" where
  "truthy JUndefined = False"
| "truthy JNull = False"
| "truthy (JBool b) = b"
| "truthy (JNum n) = (n \<noteq> NaN \<and> n \<noteq> Fin 0)"
| "truthy (JStr s) = (s \<noteq> [])"

subsection \<open>Conversion of text to a number\<close>

text \<open>
  \<open>Number(s)\<close> on a string follows the language's grammar of numeric string literals:
  surrounding white space is dropped, the empty string is 0, then a binary, octal or
  hexadecimal integer, or a signed decimal with optional fraction and exponent, or a
  signed \<open>Infinity\<close>; anything else is NaN.  Strings are byte strings here, and white
  space is the ASCII white space.
\<close>

definition is_ws :: "char \<Rightarrow> bool" where
  "is_ws c = (c \<in> set [CHR 0x09, CHR 0x0A, CHR 0x0B, CHR 0x0C, CHR 0x0D, CHR 0x20])"

definition trim :: "string \<Rightarrow> string" where
  "trim s = rev (dropWhile is_ws (rev (dropWhile is_ws s)))"

definition digit_of :: "char \<Rightarrow> nat option" where
  "digit_of = map_of
     [(CHR ''0'', 0), (CHR ''1'', 1), (CHR ''2'', 2), (CHR ''3'', 3), (CHR ''4'', 4),
      (CHR ''5'', 5), (CHR ''6'', 6), (CHR ''7'', 7), (CHR ''8'', 8), (CHR ''9'', 9),
      (CHR ''a'', 10), (CHR ''b'', 11), (CHR ''c'', 12), (CHR ''d'', 13), (CHR ''e'', 14),
      (CHR ''f'', 15), (CHR ''A'', 10), (CHR ''B'', 11), (CHR ''C'', 12), (CHR ''D'', 13),
      (CHR ''E'', 14), (CHR ''F'', 15)]"

definition radix_digit :: "nat \<Rightarrow> char \<Rightarrow> nat option" where
  "radix_digit b c =
     (case digit_of c of None \<Rightarrow> None | Some d \<Rightarrow> if d < b then Some d else None)"

fun digits_acc :: "nat \<Rightarrow> nat \<Rightarrow> string \<Rightarrow> nat option" where
  "digits_acc b acc [] = Some acc"
| "digits_acc b acc (c # cs) =
     (case radix_digit b c of None \<Rightarrow> None | Some d \<Rightarrow> digits_acc b (acc * b + d) cs)"

definition digits_val :: "nat \<Rightarrow> string \<Rightarrow> nat option" where
  "digits_val b s = (if s = [] then None else digits_acc b 0 s)"

definition is_digit :: "char \<Rightarrow> bool" where
  "is_digit c = (radix_digit 10 c \<noteq> None)"

definition exponent_part :: "string \<Rightarrow> int option" where
  "exponent_part s =
     (case s of
        [] \<Rightarrow> Some 0
      | c # t \<Rightarrow>
          if c = CHR ''e'' \<or> c = CHR ''E'' then
            (case t of
               [] \<Rightarrow> None
             | g # u \<Rightarrow>
                 if g = CHR ''+'' then map_option int (digits_val 10 u)
                 else if g = CHR ''-'' then map_option (\<lambda>n. - int n) (digits_val 10 u)
                 else map_option int (digits_val 10 t))
          else None)"

definition scale10 :: "real \<Rightarrow> int \<Rightarrow> real" where
  "scale10 m e = (if e \<ge> 0 then m * 10 ^ nat e else m / 10 ^ nat (- e))"

definition unsigned_decimal :: "string \<Rightarrow> jsnum" where
  "unsigned_decimal s =
     (if s = ''Infinity'' then PosInf
      else
        let ip = takeWhile is_digit s;
            r1 = dropWhile is_digit s;
            dot = (r1 \<noteq> [] \<and> hd r1 = CHR ''.'');
            fp = (if dot then takeWhile is_digit (tl r1) else []);
            r2 = (if dot then dropWhile is_digit (tl r1) else r1)
        in if ip = [] \<and> fp = [] then NaN
           else
             (case exponent_part r2 of
                None \<Rightarrow> NaN
              | Some e \<Rightarrow>
                  Fin (scale10
                         (real (case digits_val 10 ip of None \<Rightarrow> 0 | Some n \<Rightarrow> n)
                          + real (case digits_val 10 fp of None \<Rightarrow> 0 | Some n \<Rightarrow> n)
                            / 10 ^ length fp) e)))"

definition radix_literal :: "nat \<Rightarrow> string \<Rightarrow> jsnum" where
  "radix_literal b s = (case digits_val b s of None \<Rightarrow> NaN | Some n \<Rightarrow> Fin (real n))"

definition StringToNumber :: "string \<Rightarrow> jsnum" where
  "StringToNumber s =
     (let t = trim s in
      case t of
        [] \<Rightarrow> Fin 0
      | c # u \<Rightarrow>
          if take 2 t = ''0x'' \<or> take 2 t = ''0X'' then radix_literal 16 (drop 2 t)
          else if take 2 t = ''0o'' \<or> take 2 t = ''0O'' then radix_literal 8 (drop 2 t)
          else if take 2 t = ''0b'' \<or> take 2 t = ''0B'' then radix_literal 2 (drop 2 t)
          else if c = CHR ''+'' then unsigned_decimal u
          else if c = CHR ''-'' then js_neg (unsigned_decimal u)
          else unsigned_decimal t)"

fun Number :: "jsval \<Rightarrow> jsnum" where
  "Number JUndefined = NaN"
| "Number JNull = Fin 0"
| "Number (JBool b) = Fin (if b then 1 else 0)"
| "Number (JNum n) = n"
| "Number (JStr s) = StringToNumber s"

text \<open>\<open>a || b\<close> on a number, on a cell, and on a piece of text that may be absent.\<close>

definition num_or :: "jsnum \<Rightarrow> jsnum \<Rightarrow> jsnum" where
  "num_or a b = (if truthy (JNum a) then a else b)"

definition val_or :: "jsval \<Rightarrow> jsval \<Rightarrow> jsval" where
  "val_or a b = (if truthy a then a else b)"

fun text_or :: "string option \<Rightarrow> string \<Rightarrow> string" where
  "text_or None d = d"
| "text_or (Some s) d = (if s = [] then d else s)"

subsection \<open>Integers and random fractions as text\<close>

definition digits36 :: string where
  "digits36 = ''0123456789abcdefghijklmnopqrstuvwxyz''"

fun show_nat :: "nat \<Rightarrow> string" where
  "show_nat n =
     (if n < 10 then [digits36 ! n] else show_nat (n div 10) @ [digits36 ! (n mod 10)])"

declare show_nat.simps [simp del]

text \<open>
  \<open>Math.random().toString(36).substr(2, 9)\<close>: the first nine digits of the base-36
  expansion of the fraction, fewer when the expansion ends earlier.
\<close>

fun frac_digits36 :: "nat \<Rightarrow> real \<Rightarrow> string" where
  "frac_digits36 0 u = []"
| "frac_digits36 (Suc k) u =
     (if u = 0 then []
      else (digits36 ! nat \<lfloor>36 * u\<rfloor>) # frac_digits36 k (36 * u - real_of_int \<lfloor>36 * u\<rfloor>))"

definition random_id :: "real \<Rightarrow> string" where
  "random_id u = frac_digits36 9 u"

section \<open>Rows and nodes\<close>

text \<open>
  A parsed row, with the columns the code reads.  The name-like columns hold text or are
  absent (\<open>None\<close> stands for a missing column and for null); the two numeric columns
  hold any cell value.
\<close>

record row =
  Business_Dept :: "string option"
  Carbon_Emission :: jsval
  Trip_ID :: "string option"
  Purpose :: "string option"
  Shipping_Type :: "string option"
  Departure_City :: "string option"
  Arrival_City :: "string option"
  Net_Costs :: jsval

text \<open>
  The node objects.  Each of the three object shapes of the code is a record whose fields
  are the object's properties (prefixed \<open>d_\<close>, \<open>t_\<close>, \<open>g_\<close>); the \<open>type\<close> property
  of a department and of a trip is the constant given by \<open>node_type\<close>.  A property that
  an object does not have from the start is optional.
\<close>

record dept =
  d_id :: string
  d_name :: string
  d_emissions :: jsnum
  d_tripCount :: nat
  d_color :: "nat list"
  d_radius :: jsnum
  d_x :: real
  d_y :: real
  d_textSize :: "jsnum option"

record trip =
  t_id :: string
  t_department :: string
  t_purpose :: string
  t_transportMode :: string
  t_route :: string
  t_emissions :: jsnum
  t_cost :: jsval
  t_color :: "nat list"
  t_x :: real
  t_y :: real
  t_textSize :: "real option"

record group =
  g_id :: string
  g_type :: string
  g_name :: string
  g_department :: string
  g_purpose :: "string option"
  g_transport :: "string option"
  g_x :: real
  g_y :: real
  g_color :: "nat list"
  g_radius :: real

datatype node = DeptNode dept | GroupNode group | TripNode trip

fun node_type :: "node \<Rightarrow> string" where
  "node_type (DeptNode d) = ''department''"
| "node_type (GroupNode g) = g_type g"
| "node_type (TripNode t) = ''trip''"

fun node_id :: "node \<Rightarrow> string" where
  "node_id (DeptNode d) = d_id d"
| "node_id (GroupNode g) = g_id g"
| "node_id (TripNode t) = t_id t"

text \<open>Reading \<open>node.emissions\<close> and \<open>node.tripCount\<close>; \<open>None\<close> is undefined.\<close>

fun node_emissions :: "node \<Rightarrow> jsnum option" where
  "node_emissions (DeptNode d) = Some (d_emissions d)"
| "node_emissions (GroupNode g) = None"
| "node_emissions (TripNode t) = Some (t_emissions t)"

fun node_tripCount :: "node \<Rightarrow> nat option" where
  "node_tripCount (DeptNode d) = Some (d_tripCount d)"
| "node_tripCount (GroupNode g) = None"
| "node_tripCount (TripNode t) = None"

fun node_x :: "node \<Rightarrow> real" where
  "node_x (DeptNode d) = d_x d"
| "node_x (GroupNode g) = g_x g"
| "node_x (TripNode t) = t_x t"

fun node_y :: "node \<Rightarrow> real" where
  "node_y (DeptNode d) = d_y d"
| "node_y (GroupNode g) = g_y g"
| "node_y (TripNode t) = t_y t"

section \<open>Aggregation: processEmissionsData\<close>

text \<open>
  The colour table is looked up by name; properties inherited from the object prototype
  are not modelled.
\<close>

definition DEPARTMENT_COLORS :: "(string \<times> nat list) list" where
  "DEPARTMENT_COLORS =
     [(''Sales'', [56, 189, 248]),
      (''Marketing'', [244, 114, 182]),
      (''Customer Support'', [52, 211, 153]),
      (''Executive Management'', [167, 139, 250]),
      (''Value Engineering'', [251, 191, 36]),
      (''Services'', [34, 211, 238]),
      (''Ecosystem'', [251, 113, 133]),
      (''Office Management'', [74, 222, 128]),
      (''Legal'', [251, 146, 60]),
      (''Finance'', [192, 132, 252]),
      (''Operations'', [14, 165, 233]),
      (''Product Management'', [250, 204, 21]),
      (''HR'', [129, 140, 248]),
      (''Engineering'', [45, 212, 191])]"

definition getDepartmentColor :: "string \<Rightarrow> nat list" where
  "getDepartmentColor name =
     (case map_of DEPARTMENT_COLORS name of None \<Rightarrow> [128, 128, 128] | Some c \<Rightarrow> c)"

text \<open>
  The loop over the rows keeps the department map (a list of entries in insertion order),
  the trips, the running total, and the number of calls of \<open>Math.random\<close> made so
  far.  The random source is a sequence \<open>U\<close> of values in \<open>[0, 1)\<close>: the
  \<open>n\<close>-th call returns \<open>U n\<close>.
\<close>

record pstate =
  s_departments :: "(string \<times> dept) list"
  s_trips :: "trip list"
  s_totalEmissions :: jsnum
  s_rand :: nat

definition new_dept :: "string \<Rightarrow> dept" where
  "new_dept deptName =
     \<lparr>d_id = ''dept_'' @ deptName, d_name = deptName, d_emissions = Fin 0, d_tripCount = 0,
      d_color = getDepartmentColor deptName, d_radius = Fin 0, d_x = 0, d_y = 0,
      d_textSize = None\<rparr>"

text \<open>The separator of a route: a space, the arrow U+2192 in UTF-8, a space.\<close>

definition arrow :: string where
  "arrow = [CHR 0x20, CHR 0xE2, CHR 0x86, CHR 0x92, CHR 0x20]"

definition accepted :: "row \<Rightarrow> bool" where
  "accepted r =
     (case Business_Dept r of
        None \<Rightarrow> False
      | Some deptName \<Rightarrow> deptName \<noteq> [] \<and> truthy (Carbon_Emission r))"

definition row_emissions :: "row \<Rightarrow> jsnum" where
  "row_emissions r = num_or (Number (Carbon_Emission r)) (Fin 0)"

definition uses_random :: "row \<Rightarrow> bool" where
  "uses_random r = (case Trip_ID r of None \<Rightarrow> True | Some s \<Rightarrow> s = [])"

definition trip_key :: "(nat \<Rightarrow> real) \<Rightarrow> nat \<Rightarrow> row \<Rightarrow> string" where
  "trip_key U n r =
     (case Trip_ID r of
        None \<Rightarrow> random_id (U n)
      | Some s \<Rightarrow> if s = [] then random_id (U n) else s)"

definition make_trip :: "(nat \<Rightarrow> real) \<Rightarrow> nat \<Rightarrow> string \<Rightarrow> row \<Rightarrow> trip" where
  "make_trip U n deptName r =
     \<lparr>t_id = ''trip_'' @ trip_key U n r,
      t_department = deptName,
      t_purpose = text_or (Purpose r) ''Other'',
      t_transportMode = text_or (Shipping_Type r) ''Other'',
      t_route = text_or (Departure_City r) ''Unknown'' @ arrow
                @ text_or (Arrival_City r) ''Unknown'',
      t_emissions = row_emissions r,
      t_cost = val_or (Net_Costs r) (JNum (Fin 0)),
      t_color = getDepartmentColor deptName,
      t_x = 0, t_y = 0, t_textSize = None\<rparr>"

definition add_to_dept :: "jsnum \<Rightarrow> dept \<Rightarrow> dept" where
  "add_to_dept e d = d\<lparr>d_emissions := js_add (d_emissions d) e, d_tripCount := d_tripCount d + 1\<rparr>"

definition process_row :: "(nat \<Rightarrow> real) \<Rightarrow> row \<Rightarrow> pstate \<Rightarrow> pstate" where
  "process_row U r s =
     (case Business_Dept r of
        None \<Rightarrow> s
      | Some deptName \<Rightarrow>
          if deptName = [] \<or> \<not> truthy (Carbon_Emission r) then s
          else
            let emissions = row_emissions r;
                departments1 =
                  (if map_of (s_departments s) deptName = None
                   then s_departments s @ [(deptName, new_dept deptName)]
                   else s_departments s);
                departments2 = AList.map_entry deptName (add_to_dept emissions) departments1
            in \<lparr>s_departments = departments2,
                s_trips = s_trips s @ [make_trip U (s_rand s) deptName r],
                s_totalEmissions = js_add (s_totalEmissions s) emissions,
                s_rand = (if uses_random r then Suc (s_rand s) else s_rand s)\<rparr>)"

definition init_state :: pstate where
  "init_state = \<lparr>s_departments = [], s_trips = [], s_totalEmissions = Fin 0, s_rand = 0\<rparr>"

definition set_radius :: "dept \<Rightarrow> dept" where
  "set_radius d = d\<lparr>d_radius := js_add (Fin 100) (js_mul (js_sqrt (d_emissions d)) (Fin 0.5))\<rparr>"

section \<open>Layout: positionNodes\<close>

definition spacing :: real where "spacing = 700"
definition angleIncrement :: real where "angleIncrement = 137.508 * (pi / 180)"
definition PURPOSE_GROUP_RADIUS :: real where "PURPOSE_GROUP_RADIUS = 75"
definition TRANSPORT_GROUP_RADIUS :: real where "TRANSPORT_GROUP_RADIUS = 22"
definition ROUTE_GROUP_RADIUS :: real where "ROUTE_GROUP_RADIUS = 6"
definition DEPT_CLUSTER_RADIUS :: real where "DEPT_CLUSTER_RADIUS = 180"

definition place_dept :: "nat \<Rightarrow> dept \<Rightarrow> dept" where
  "place_dept i d =
     (let r = spacing * sqrt (real i); theta = real i * angleIncrement
      in d\<lparr>d_x := r * cos theta, d_y := r * sin theta,
           d_textSize :=
             Some (js_add (Fin 32) (js_mul (js_sqrt (js_div (d_emissions d) (Fin 2000))) (Fin 12)))\<rparr>)"

definition position_depts :: "dept list \<Rightarrow> dept list" where
  "position_depts deptArray = map (\<lambda>(i, d). place_dept i d) (enumerate 0 deptArray)"

text \<open>
  The nested maps department, purpose, transport, route, trips.  \<open>upsert k d f\<close> is
  \<open>if (!m.has(k)) m.set(k, d)\<close> followed by the change \<open>f\<close> to the value stored
  under \<open>k\<close>; a new key goes to the end, as in a \<open>Map\<close>.
\<close>

fun upsert :: "'k \<Rightarrow> 'v \<Rightarrow> ('v \<Rightarrow> 'v) \<Rightarrow> ('k \<times> 'v) list \<Rightarrow> ('k \<times> 'v) list" where
  "upsert k d f [] = [(k, f d)]"
| "upsert k d f (p # ps) = (if fst p = k then (k, f (snd p)) # ps else p # upsert k d f ps)"

type_synonym routeMap = "(string \<times> trip list) list"
type_synonym transportMap = "(string \<times> routeMap) list"
type_synonym purposeMap = "(string \<times> transportMap) list"
type_synonym deptMap = "(string \<times> purposeMap) list"

definition add_trip :: "trip \<Rightarrow> deptMap \<Rightarrow> deptMap" where
  "add_trip t deptGroups =
     upsert (t_department t) []
       (upsert (t_purpose t) []
          (upsert (text_or (Some (t_transportMode t)) ''Other'') []
             (upsert (text_or (Some (t_route t)) ''Unknown Route'') [] (\<lambda>l. l @ [t]))))
       deptGroups"

definition angle_step :: "nat \<Rightarrow> real" where
  "angle_step len = (2 * pi) / real (if len = 0 then 1 else len)"

text \<open>
  The four nested loops.  Each returns the nodes it pushes, in order, and the number of
  random draws made so far.
\<close>

text \<open>
  Whether a trip stays within a given distance of its route centre depends on the rounding
  of the arithmetic, so the body of the innermost loop is evaluated as the engine evaluates
  it, in binary64 arithmetic: every operation returns the binary64 number nearest to its
  real result, a tie going to the even significand.  \<open>rnd\<close> is this rounding for a
  significand of 53 bits; the exponent is not bounded, the numbers of the placement being
  far from the overflow and underflow thresholds.  \<open>rne\<close> rounds to the nearest
  integer, a tie going to the even one; \<open>expo x\<close> is the exponent of \<open>x\<close>, the
  \<open>e\<close> with \<open>2 ^ e \<le> \<bar>x\<bar> < 2 ^ (e + 1)\<close>.

  \<open>Math.sqrt\<close> is correctly rounded.  \<open>Math.cos\<close> and \<open>Math.sin\<close> are
  implementation-approximated in ECMAScript: \<open>place_trip_with\<close> is the loop body with
  the two functions as parameters, and \<open>place_trip\<close> is the loop body with the correctly
  rounded cosine and sine, which return 1 and 0 at 0 as every implementation does.  The
  literal \<open>0.8\<close> and \<open>Math.PI\<close> are the binary64 numbers nearest to \<open>4 / 5\<close> and
  to \<open>pi\<close>; \<open>ROUTE_GROUP_RADIUS\<close> and \<open>2\<close> are binary64 numbers.  A product
  \<open>a * b * c\<close> is \<open>(a * b) * c\<close>.
\<close>

definition rne :: "real \<Rightarrow> int" where
  "rne x =
     (if x - of_int \<lfloor>x\<rfloor> < 1 / 2 then \<lfloor>x\<rfloor>
      else if x - of_int \<lfloor>x\<rfloor> > 1 / 2 then \<lfloor>x\<rfloor> + 1
      else if even \<lfloor>x\<rfloor> then \<lfloor>x\<rfloor> else \<lfloor>x\<rfloor> + 1)"

definition pow2 :: "int \<Rightarrow> real" where
  "pow2 k = (if 0 \<le> k then 2 ^ nat k else 1 / 2 ^ nat (- k))"

definition expo :: "real \<Rightarrow> int" where
  "expo x = \<lfloor>log 2 \<bar>x\<bar>\<rfloor>"

definition rnd :: "real \<Rightarrow> real" where
  "rnd x =
     (if x = 0 then 0
      else of_int (rne (x / pow2 (expo x - 52))) * pow2 (expo x - 52))"

definition Math_PI :: real where
  "Math_PI = rnd pi"

definition Math_sqrt :: "real \<Rightarrow> real" where
  "Math_sqrt x = rnd (sqrt x)"

definition Math_cos :: "real \<Rightarrow> real" where
  "Math_cos a = rnd (cos a)"

definition Math_sin :: "real \<Rightarrow> real" where
  "Math_sin a = rnd (sin a)"

definition place_trip_with ::
  "(real \<Rightarrow> real) \<Rightarrow> (real \<Rightarrow> real) \<Rightarrow> real \<Rightarrow> real \<Rightarrow> real \<Rightarrow> real \<Rightarrow> trip \<Rightarrow> trip" where
  "place_trip_with mcos msin routeX routeY u1 u2 t =
     (let r = rnd (rnd (ROUTE_GROUP_RADIUS * Math_sqrt u1) * rnd 0.8);
          angle = rnd (rnd (u2 * 2) * Math_PI)
      in t\<lparr>t_x := rnd (routeX + rnd (r * mcos angle)),
           t_y := rnd (routeY + rnd (r * msin angle)),
           t_textSize := Some 8\<rparr>)"

definition place_trip :: "real \<Rightarrow> real \<Rightarrow> real \<Rightarrow> real \<Rightarrow> trip \<Rightarrow> trip" where
  "place_trip = place_trip_with Math_cos Math_sin"

fun place_trips :: "(nat \<Rightarrow> real) \<Rightarrow> real \<Rightarrow> real \<Rightarrow> trip list \<Rightarrow> nat \<Rightarrow> node list \<times> nat" where
  "place_trips U routeX routeY [] n = ([], n)"
| "place_trips U routeX routeY (t # ts) n =
     (case place_trips U routeX routeY ts (n + 2) of
        (ns, n') \<Rightarrow> (TripNode (place_trip routeX routeY (U n) (U (Suc n)) t) # ns, n'))"

definition route_node ::
  "string \<Rightarrow> string \<Rightarrow> string \<Rightarrow> nat \<Rightarrow> string \<Rightarrow> real \<Rightarrow> real \<Rightarrow> group" where
  "route_node deptName purpose transport k route routeX routeY =
     \<lparr>g_id = ''route_'' @ deptName @ ''_'' @ purpose @ ''_'' @ transport @ ''_'' @ show_nat k,
      g_type = ''route-group'', g_name = route, g_department = deptName,
      g_purpose = Some purpose, g_transport = Some transport,
      g_x = routeX, g_y = routeY, g_color = getDepartmentColor deptName,
      g_radius = ROUTE_GROUP_RADIUS + 2\<rparr>"

fun place_routes ::
  "(nat \<Rightarrow> real) \<Rightarrow> string \<Rightarrow> string \<Rightarrow> string \<Rightarrow> real \<Rightarrow> real \<Rightarrow> real \<Rightarrow> real
     \<Rightarrow> routeMap \<Rightarrow> nat \<Rightarrow> nat \<Rightarrow> node list \<times> nat" where
  "place_routes U deptName purpose transport transportX transportY layoutRadius step [] k n =
     ([], n)"
| "place_routes U deptName purpose transport transportX transportY layoutRadius step
     ((route, tripList) # rest) k n =
     (let routeAngle = real k * step;
          routeX = transportX + layoutRadius * cos routeAngle;
          routeY = transportY + layoutRadius * sin routeAngle
      in case place_trips U routeX routeY tripList n of
           (tn, n1) \<Rightarrow>
             (case place_routes U deptName purpose transport transportX transportY
                     layoutRadius step rest (Suc k) n1 of
                (rn, n2) \<Rightarrow>
                  (GroupNode (route_node deptName purpose transport k route routeX routeY)
                     # tn @ rn, n2)))"

definition transport_node :: "string \<Rightarrow> string \<Rightarrow> string \<Rightarrow> real \<Rightarrow> real \<Rightarrow> group" where
  "transport_node deptName purpose transport transportX transportY =
     \<lparr>g_id = ''trans_'' @ deptName @ ''_'' @ purpose @ ''_'' @ transport,
      g_type = ''transport-group'', g_name = transport, g_department = deptName,
      g_purpose = Some purpose, g_transport = None,
      g_x = transportX, g_y = transportY, g_color = getDepartmentColor deptName,
      g_radius = TRANSPORT_GROUP_RADIUS + 10\<rparr>"

fun place_transports ::
  "(nat \<Rightarrow> real) \<Rightarrow> string \<Rightarrow> string \<Rightarrow> real \<Rightarrow> real \<Rightarrow> real \<Rightarrow> real
     \<Rightarrow> transportMap \<Rightarrow> nat \<Rightarrow> nat \<Rightarrow> node list \<times> nat" where
  "place_transports U deptName purpose purposeX purposeY layoutRadius step [] j n = ([], n)"
| "place_transports U deptName purpose purposeX purposeY layoutRadius step
     ((transport, routeMap) # rest) j n =
     (let transportAngle = real j * step;
          transportX = purposeX + layoutRadius * cos transportAngle;
          transportY = purposeY + layoutRadius * sin transportAngle;
          routeLayoutRadius = (if length routeMap > 1 then TRANSPORT_GROUP_RADIUS * 0.6 else 0);
          routeAngleStep = angle_step (length routeMap)
      in case place_routes U deptName purpose transport transportX transportY
                routeLayoutRadius routeAngleStep routeMap 0 n of
           (rn, n1) \<Rightarrow>
             (case place_transports U deptName purpose purposeX purposeY layoutRadius step
                     rest (Suc j) n1 of
                (tn, n2) \<Rightarrow>
                  (GroupNode (transport_node deptName purpose transport transportX transportY)
                     # rn @ tn, n2)))"

definition purpose_node :: "string \<Rightarrow> string \<Rightarrow> real \<Rightarrow> real \<Rightarrow> group" where
  "purpose_node deptName purpose purposeX purposeY =
     \<lparr>g_id = ''group_'' @ deptName @ ''_'' @ purpose,
      g_type = ''purpose-group'', g_name = purpose, g_department = deptName,
      g_purpose = None, g_transport = None,
      g_x = purposeX, g_y = purposeY, g_color = getDepartmentColor deptName,
      g_radius = PURPOSE_GROUP_RADIUS + 20\<rparr>"

fun place_purposes ::
  "(nat \<Rightarrow> real) \<Rightarrow> string \<Rightarrow> real \<Rightarrow> real \<Rightarrow> real
     \<Rightarrow> purposeMap \<Rightarrow> nat \<Rightarrow> nat \<Rightarrow> node list \<times> nat" where
  "place_purposes U deptName deptX deptY step [] i n = ([], n)"
| "place_purposes U deptName deptX deptY step ((purpose, transportMap) # rest) i n =
     (let purposeAngle = real i * step;
          purposeX = deptX + DEPT_CLUSTER_RADIUS * cos purposeAngle;
          purposeY = deptY + DEPT_CLUSTER_RADIUS * sin purposeAngle;
          transportLayoutRadius =
            (if length transportMap > 1 then PURPOSE_GROUP_RADIUS * 0.65 else 0);
          transportAngleStep = angle_step (length transportMap)
      in case place_transports U deptName purpose purposeX purposeY transportLayoutRadius
                transportAngleStep transportMap 0 n of
           (tn, n1) \<Rightarrow>
             (case place_purposes U deptName deptX deptY step rest (Suc i) n1 of
                (pn, n2) \<Rightarrow>
                  (GroupNode (purpose_node deptName purpose purposeX purposeY) # tn @ pn, n2)))"

fun place_groups ::
  "(nat \<Rightarrow> real) \<Rightarrow> (string \<times> real \<times> real) list \<Rightarrow> deptMap \<Rightarrow> nat \<Rightarrow> node list \<times> nat" where
  "place_groups U deptPositions [] n = ([], n)"
| "place_groups U deptPositions ((deptName, purposeMap) # rest) n =
     (case map_of deptPositions deptName of
        None \<Rightarrow> place_groups U deptPositions rest n
      | Some (deptX, deptY) \<Rightarrow>
          (case place_purposes U deptName deptX deptY (angle_step (length purposeMap))
                  purposeMap 0 n of
             (pn, n1) \<Rightarrow>
               (case place_groups U deptPositions rest n1 of
                  (gn, n2) \<Rightarrow> (pn @ gn, n2))))"

text \<open>
  \<open>positionNodes\<close> changes the department and trip objects in place; the changed
  departments are returned beside the node list, since the caller reads them again.
\<close>

definition positionNodes ::
  "(nat \<Rightarrow> real) \<Rightarrow> nat \<Rightarrow> (string \<times> dept) list \<Rightarrow> trip list
     \<Rightarrow> node list \<times> dept list \<times> nat" where
  "positionNodes U n departments trips =
     (let deptArray = position_depts (map snd departments);
          deptPositions = fold (\<lambda>d m. AList.update (d_name d) (d_x d, d_y d) m) deptArray [];
          deptGroups = fold add_trip trips []
      in case place_groups U deptPositions deptGroups n of
           (gn, n') \<Rightarrow> (map DeptNode deptArray @ gn, deptArray, n'))"

record result =
  nodes :: "node list"
  departments :: "dept list"
  totalEmissions :: jsnum
  counts_departments :: nat
  counts_trips :: nat

definition processEmissionsData :: "(nat \<Rightarrow> real) \<Rightarrow> row list \<Rightarrow> result" where
  "processEmissionsData U rawData =
     (let s = fold (process_row U) rawData init_state;
          departments = map (\<lambda>(k, d). (k, set_radius d)) (s_departments s)
      in case positionNodes U (s_rand s) departments (s_trips s) of
           (ns, ds, n') \<Rightarrow>
             \<lparr>nodes = ns, departments = ds, totalEmissions = s_totalEmissions s,
              counts_departments = length departments, counts_trips = length (s_trips s)\<rparr>)"

section \<open>Level of detail: getLayerOpacity\<close>

text \<open>
  A visibility window has a finite lower bound and an upper bound that is finite or
  \<open>Infinity\<close> (\<open>None\<close>).  \<open>layerOpacity\<close> is the body of \<open>getLayerOpacity\<close> with
  the table of windows as an argument; the code reads the constant table.
\<close>

record threshold =
  th_min :: real
  th_max :: "real option"

definition ZOOM_THRESHOLDS :: "(string \<times> threshold) list" where
  "ZOOM_THRESHOLDS =
     [(''department'', \<lparr>th_min = 0, th_max = None\<rparr>),
      (''trip'', \<lparr>th_min = 4, th_max = None\<rparr>),
      (''purpose'', \<lparr>th_min = 4, th_max = None\<rparr>),
      (''transport'', \<lparr>th_min = 6, th_max = None\<rparr>),
      (''route'', \<lparr>th_min = 7.5, th_max = None\<rparr>)]"

definition fadeRange :: real where "fadeRange = 0.5"

definition layerOpacity :: "(string \<times> threshold) list \<Rightarrow> string \<Rightarrow> real \<Rightarrow> real" where
  "layerOpacity T nodeType currentZoom =
     (case map_of T nodeType of
        None \<Rightarrow> 0
      | Some th \<Rightarrow>
          if currentZoom < th_min th then 0
          else
            (case th_max th of
               None \<Rightarrow> 1
             | Some m \<Rightarrow>
                 if currentZoom \<ge> m then 0
                 else if currentZoom > m - fadeRange then (m - currentZoom) / fadeRange
                 else 1))"

definition getLayerOpacity :: "string \<Rightarrow> real \<Rightarrow> real" where
  "getLayerOpacity = layerOpacity ZOOM_THRESHOLDS"

section \<open>Scene composition\<close>

text \<open>
  A layer descriptor keeps the identifier, the layer class, the data, the pickability
  flag and the \<open>opacity\<close> property where the code sets one; accessors and the other
  styling properties are left out.  A constructor that returns \<open>null\<close> returns
  \<open>None\<close>.
\<close>

datatype layer_class = ScatterplotLayer | TextLayer

record layer =
  l_id :: string
  l_class :: layer_class
  l_data :: "node list"
  l_pickable :: bool
  l_opacity :: "real option"

definition text_config :: "(string \<times> nat \<times> nat \<times> nat \<times> bool) list" where
  "text_config = [(''department'', (900, 32, 80, True))]"

definition createTextLayer :: "node list \<Rightarrow> string \<Rightarrow> real \<Rightarrow> real \<Rightarrow> layer option" where
  "createTextLayer ns nodeType currentZoom opacity =
     (let filteredNodes = filter (\<lambda>n. node_type n = nodeType) ns
      in if filteredNodes = [] \<or> opacity \<le> 0 then None
         else
           (case map_of text_config nodeType of
              None \<Rightarrow> None
            | Some c \<Rightarrow>
                Some \<lparr>l_id = nodeType @ ''-text-layer'', l_class = TextLayer,
                      l_data = filteredNodes, l_pickable = True, l_opacity = None\<rparr>))"

definition createDepartmentNodeLayer :: "node list \<Rightarrow> real \<Rightarrow> real \<Rightarrow> layer option" where
  "createDepartmentNodeLayer ns currentZoom opacity =
     (let filteredNodes = filter (\<lambda>n. node_type n = ''department'') ns
      in if filteredNodes = [] \<or> opacity \<le> 0 then None
         else Some \<lparr>l_id = ''department-circle-layer'', l_class = ScatterplotLayer,
                    l_data = filteredNodes, l_pickable = True, l_opacity = Some opacity\<rparr>)"

definition createPurposeHighlightLayer :: "node list \<Rightarrow> real \<Rightarrow> layer option" where
  "createPurposeHighlightLayer ns currentZoom =
     (if currentZoom < 4 then None
      else Some \<lparr>l_id = ''purpose-highlight-layer'', l_class = ScatterplotLayer,
                 l_data = filter (\<lambda>n. node_type n = ''purpose-group'') ns,
                 l_pickable = False, l_opacity = Some 0.2\<rparr>)"

definition createPurposeLabelLayer :: "node list \<Rightarrow> real \<Rightarrow> layer option" where
  "createPurposeLabelLayer ns currentZoom =
     (if currentZoom < 4 then None
      else Some \<lparr>l_id = ''purpose-label-layer'', l_class = TextLayer,
                 l_data = filter (\<lambda>n. node_type n = ''purpose-group'') ns,
                 l_pickable = False, l_opacity = None\<rparr>)"

definition createTripLayer :: "node list \<Rightarrow> real \<Rightarrow> real \<Rightarrow> layer option" where
  "createTripLayer ns currentZoom opacity =
     (let filteredNodes = filter (\<lambda>n. node_type n = ''trip'') ns
      in if filteredNodes = [] \<or> opacity \<le> 0 then None
         else Some \<lparr>l_id = ''trip-layer'', l_class = ScatterplotLayer,
                    l_data = filteredNodes, l_pickable = True, l_opacity = Some opacity\<rparr>)"

definition createTransportHighlightLayer :: "node list \<Rightarrow> real \<Rightarrow> layer option" where
  "createTransportHighlightLayer ns currentZoom =
     (if currentZoom < 6 then None
      else Some \<lparr>l_id = ''transport-highlight-layer'', l_class = ScatterplotLayer,
                 l_data = filter (\<lambda>n. node_type n = ''transport-group'') ns,
                 l_pickable = False, l_opacity = Some 0.3\<rparr>)"

definition createTransportLabelLayer :: "node list \<Rightarrow> real \<Rightarrow> layer option" where
  "createTransportLabelLayer ns currentZoom =
     (if currentZoom < 6 then None
      else Some \<lparr>l_id = ''transport-label-layer'', l_class = TextLayer,
                 l_data = filter (\<lambda>n. node_type n = ''transport-group'') ns,
                 l_pickable = False, l_opacity = None\<rparr>)"

definition createRouteHighlightLayer :: "node list \<Rightarrow> real \<Rightarrow> layer option" where
  "createRouteHighlightLayer ns currentZoom =
     (if currentZoom < 7.5 then None
      else Some \<lparr>l_id = ''route-highlight-layer'', l_class = ScatterplotLayer,
                 l_data = filter (\<lambda>n. node_type n = ''route-group'') ns,
                 l_pickable = False, l_opacity = Some 0.4\<rparr>)"

definition createRouteLabelLayer :: "node list \<Rightarrow> real \<Rightarrow> layer option" where
  "createRouteLabelLayer ns currentZoom =
     (if currentZoom < 7.5 then None
      else Some \<lparr>l_id = ''route-label-layer'', l_class = TextLayer,
                 l_data = filter (\<lambda>n. node_type n = ''route-group'') ns,
                 l_pickable = False, l_opacity = None\<rparr>)"

text \<open>\<open>if (layer) layers.push(layer)\<close>\<close>

definition push_layer :: "layer option \<Rightarrow> layer list \<Rightarrow> layer list" where
  "push_layer l layers = (case l of None \<Rightarrow> layers | Some v \<Rightarrow> layers @ [v])"

definition createAllTextLayers :: "node list \<Rightarrow> real \<Rightarrow> layer list" where
  "createAllTextLayers ns currentZoom =
     (let deptOpacity = getLayerOpacity ''department'' currentZoom;
          tripOpacity = getLayerOpacity ''trip'' currentZoom;
          layers = [];
          layers = (if currentZoom \<ge> 4
                    then push_layer (createPurposeHighlightLayer ns currentZoom) layers
                    else layers);
          layers = (if currentZoom \<ge> 6
                    then push_layer (createTransportHighlightLayer ns currentZoom) layers
                    else layers);
          layers = (if currentZoom \<ge> 7.5
                    then push_layer (createRouteHighlightLayer ns currentZoom) layers
                    else layers);
          layers = (if tripOpacity > 0
                    then push_layer (createTripLayer ns currentZoom tripOpacity) layers
                    else layers);
          layers = (if currentZoom \<ge> 6 \<and> currentZoom < 12
                    then push_layer (createTransportLabelLayer ns currentZoom) layers
                    else layers);
          layers = (if currentZoom \<ge> 7.5
                    then push_layer (createRouteLabelLayer ns currentZoom) layers
                    else layers);
          layers = (if currentZoom \<ge> 4 \<and> currentZoom < 12
                    then push_layer (createPurposeLabelLayer ns currentZoom) layers
                    else layers);
          layers = (if deptOpacity > 0
                    then push_layer (createTextLayer ns ''department'' currentZoom deptOpacity)
                           (push_layer (createDepartmentNodeLayer ns currentZoom deptOpacity)
                              layers)
                    else layers)
      in layers)"

definition createSearchHighlightLayer :: "node list option \<Rightarrow> real \<Rightarrow> layer option" where
  "createSearchHighlightLayer matchingNodes currentZoom =
     (case matchingNodes of
        None \<Rightarrow> None
      | Some ms \<Rightarrow>
          if ms = [] then None
          else Some \<lparr>l_id = ''search-highlight'', l_class = ScatterplotLayer, l_data = ms,
                     l_pickable = False, l_opacity = None\<rparr>)"

text \<open>
  The application keeps the search matches, the zoom and the processed data in global
  variables.  \<open>getLayers\<close> reads \<open>graphData.nodes\<close>, which throws while the data is
  still \<open>null\<close>: the result \<open>None\<close>.
\<close>

record app =
  searchMatches :: "node list option"
  currentZoom :: real
  graphData :: "result option"

definition getLayers :: "app \<Rightarrow> layer list option" where
  "getLayers a =
     (let layers = [];
          layers = (case searchMatches a of
                      None \<Rightarrow> layers
                    | Some ms \<Rightarrow>
                        if length ms > 0
                        then push_layer
                               (createSearchHighlightLayer (searchMatches a) (currentZoom a))
                               layers
                        else layers)
      in case graphData a of
           None \<Rightarrow> None
         | Some g \<Rightarrow> Some (layers @ createAllTextLayers (nodes g) (currentZoom a)))"

section \<open>Example inputs\<close>

definition U_half :: "nat \<Rightarrow> real" where
  "U_half n = 1 / 2"

definition U_edge :: "nat \<Rightarrow> real" where
  "U_edge n = (if n = 0 then 1 - 1 / 2 ^ 52 else 0)"

definition row_engineering :: row where
  "row_engineering =
     \<lparr>Business_Dept = Some ''Engineering'', Carbon_Emission = JNum (Fin 500),
      Trip_ID = Some ''T1'', Purpose = Some ''Training'', Shipping_Type = Some ''Air'',
      Departure_City = Some ''NYC'', Arrival_City = Some ''SF'', Net_Costs = JNum (Fin 120)\<rparr>"

definition row_no_dept :: row where
  "row_no_dept = row_engineering\<lparr>Business_Dept := None\<rparr>"

definition row_zero :: row where
  "row_zero = row_engineering\<lparr>Carbon_Emission := JNum (Fin 0), Trip_ID := Some ''T2''\<rparr>"

definition row_text :: row where
  "row_text = row_engineering\<lparr>Carbon_Emission := JStr ''N/A''\<rparr>"

definition row_duplicate :: "row list" where
  "row_duplicate = [row_engineering, row_engineering\<lparr>Carbon_Emission := JNum (Fin 300)\<rparr>]"

definition row_underscore :: "row list" where
  "row_underscore =
     [row_engineering\<lparr>Business_Dept := Some ''A_B'', Purpose := Some ''C''\<rparr>,
      row_engineering\<lparr>Business_Dept := Some ''A'', Purpose := Some ''B_C'', Trip_ID := Some ''T2''\<rparr>]"

definition row_distinct :: "row list" where
  "row_distinct = [row_engineering, row_engineering\<lparr>Trip_ID := Some ''T2''\<rparr>]"

definition app_search :: app where
  "app_search =
     \<lparr>searchMatches = Some (nodes (processEmissionsData U_half [row_engineering])),
      currentZoom = 3.5,
      graphData = Some (processEmissionsData U_half [row_engineering])\<rparr>"

section \<open>Vocabulary of the properties\<close>

text \<open>
  The names below are not functions of the program; the properties are stated with them.
  \<open>first_seen\<close> keeps the first occurrence of every element, in order.  \<open>dept_key\<close>
  is the department a row is assigned to, \<open>dept_names\<close> the departments of the
  accepted rows in first-seen order, \<open>rows_of k\<close> the accepted rows of department
  \<open>k\<close>, and \<open>dept_sum k\<close> the sum of their emissions, added in row order as the loop
  does.  \<open>run\<close> is the state after the loop over the rows, \<open>trips_of\<close> the trip
  objects among a list of nodes, and \<open>unplace\<close> a trip as it was before the layout
  wrote its position.
\<close>

definition first_seen :: "'a list \<Rightarrow> 'a list" where
  "first_seen xs = fold (\<lambda>x acc. if x \<in> set acc then acc else acc @ [x]) xs []"

definition dept_key :: "row \<Rightarrow> string" where
  "dept_key r = text_or (Business_Dept r) []"

definition dept_names :: "row list \<Rightarrow> string list" where
  "dept_names rows = first_seen (map dept_key (filter accepted rows))"

definition rows_of :: "string \<Rightarrow> row list \<Rightarrow> row list" where
  "rows_of k rows = filter (\<lambda>r. accepted r \<and> Business_Dept r = Some k) rows"

definition dept_sum :: "string \<Rightarrow> row list \<Rightarrow> jsnum" where
  "dept_sum k rows = foldl js_add (Fin 0) (map row_emissions (rows_of k rows))"

definition agg_dept :: "string \<Rightarrow> row list \<Rightarrow> dept" where
  "agg_dept k rows = (new_dept k)\<lparr>d_emissions := dept_sum k rows, d_tripCount := length (rows_of k rows)\<rparr>"

definition run :: "(nat \<Rightarrow> real) \<Rightarrow> row list \<Rightarrow> pstate" where
  "run U rows = fold (process_row U) rows init_state"

fun trips_of :: "node list \<Rightarrow> trip list" where
  "trips_of [] = []"
| "trips_of (TripNode t # ns) = t # trips_of ns"
| "trips_of (DeptNode d # ns) = trips_of ns"
| "trips_of (GroupNode g # ns) = trips_of ns"

definition unplace :: "trip \<Rightarrow> trip" where
  "unplace t = t\<lparr>t_x := 0, t_y := 0, t_textSize := None\<rparr>"

definition transport_key :: "trip \<Rightarrow> string" where
  "transport_key t = text_or (Some (t_transportMode t)) ''Other''"

definition route_key :: "trip \<Rightarrow> string" where
  "route_key t = text_or (Some (t_route t)) ''Unknown Route''"

definition route_trips :: "routeMap \<Rightarrow> trip list" where
  "route_trips rm = concat (map snd rm)"

definition transport_trips :: "transportMap \<Rightarrow> trip list" where
  "transport_trips tm = concat (map (\<lambda>e. route_trips (snd e)) tm)"

definition purpose_trips :: "purposeMap \<Rightarrow> trip list" where
  "purpose_trips pm = concat (map (\<lambda>e. transport_trips (snd e)) pm)"

definition all_trips :: "deptMap \<Rightarrow> trip list" where
  "all_trips G = concat (map (\<lambda>e. purpose_trips (snd e)) G)"

definition final_depts :: "row list \<Rightarrow> dept list" where
  "final_depts rows = position_depts (map (\<lambda>k. set_radius (agg_dept k rows)) (dept_names rows))"

definition dept_positions :: "dept list \<Rightarrow> (string \<times> real \<times> real) list" where
  "dept_positions ds = fold (\<lambda>d m. AList.update (d_name d) (d_x d, d_y d) m) ds []"

definition group_nodes :: "(nat \<Rightarrow> real) \<Rightarrow> row list \<Rightarrow> node list" where
  "group_nodes U rows =
     fst (place_groups U (dept_positions (final_depts rows))
            (fold add_trip (s_trips (run U rows)) []) (s_rand (run U rows)))"

text \<open>
  The first three characters of an identifier tell the kind of its node.  \<open>below_dept\<close>
  holds of the nodes the layout adds below the departments.
\<close>

definition id_tag :: "string \<Rightarrow> string" where
  "id_tag ty =
     (if ty = ''department'' then ''dep''
      else if ty = ''purpose-group'' then ''gro''
      else if ty = ''transport-group'' then ''tra''
      else if ty = ''route-group'' then ''rou''
      else ''tri'')"

definition below_dept :: "node \<Rightarrow> bool" where
  "below_dept n =
     (case n of
        DeptNode d \<Rightarrow> False
      | GroupNode g \<Rightarrow>
          g_type g \<in> {''purpose-group'', ''transport-group'', ''route-group''}
          \<and> take 3 (g_id g) = id_tag (g_type g)
      | TripNode t \<Rightarrow> True)"

text \<open>
  A trip lies \<open>under\<close> the keys of the nested maps it was filed under; the \<open>wf_\<close>
  predicates say so for every trip of a map.  \<open>anchored\<close>: a placed trip has a route
  group node in the list, with the trip's ancestry, from whose centre it was offset by
  two consecutive random draws.
\<close>

definition under :: "string \<Rightarrow> string \<Rightarrow> string \<Rightarrow> string \<Rightarrow> trip \<Rightarrow> bool" where
  "under d p tr r t =
     (t_department t = d \<and> t_purpose t = p \<and> transport_key t = tr \<and> route_key t = r)"

definition wf_routes :: "string \<Rightarrow> string \<Rightarrow> string \<Rightarrow> routeMap \<Rightarrow> bool" where
  "wf_routes d p tr rm = (\<forall>e \<in> set rm. \<forall>t \<in> set (snd e). under d p tr (fst e) t)"

definition wf_transports :: "string \<Rightarrow> string \<Rightarrow> transportMap \<Rightarrow> bool" where
  "wf_transports d p tm = (\<forall>e \<in> set tm. wf_routes d p (fst e) (snd e))"

definition wf_purposes :: "string \<Rightarrow> purposeMap \<Rightarrow> bool" where
  "wf_purposes d pm = (\<forall>e \<in> set pm. wf_transports d (fst e) (snd e))"

definition wf_groups :: "deptMap \<Rightarrow> bool" where
  "wf_groups G = (\<forall>e \<in> set G. wf_purposes (fst e) (snd e))"

definition anchored :: "(nat \<Rightarrow> real) \<Rightarrow> node list \<Rightarrow> trip set \<Rightarrow> trip \<Rightarrow> bool" where
  "anchored U out T t' =
     (\<exists>g i t. GroupNode g \<in> set out \<and> t \<in> T \<and> g_type g = ''route-group''
        \<and> g_department g = t_department t \<and> g_purpose g = Some (t_purpose t)
        \<and> g_transport g = Some (transport_key t) \<and> g_name g = route_key t
        \<and> t' = place_trip (g_x g) (g_y g) (U i) (U (Suc i)) t)"

text \<open>
  The identifiers of the group nodes, computed from the nested maps alone;
  \<open>no_underscore\<close> says that a name contains no underscore, the separator of the
  identifiers; \<open>tag1\<close>, \<open>tag2\<close> and \<open>tag3\<close> read the department, purpose and
  transport mode back from an identifier built from such names; the \<open>ok_\<close> predicates
  say that the keys of a map are pairwise distinct and free of underscores.
\<close>

fun groups_of :: "node list \<Rightarrow> group list" where
  "groups_of [] = []"
| "groups_of (GroupNode g # ns) = g # groups_of ns"
| "groups_of (DeptNode d # ns) = groups_of ns"
| "groups_of (TripNode t # ns) = groups_of ns"

definition route_id :: "string \<Rightarrow> string \<Rightarrow> string \<Rightarrow> nat \<Rightarrow> string" where
  "route_id d p tr j = ''route_'' @ d @ ''_'' @ p @ ''_'' @ tr @ ''_'' @ show_nat j"

definition route_ids :: "string \<Rightarrow> string \<Rightarrow> string \<Rightarrow> nat \<Rightarrow> routeMap \<Rightarrow> string list" where
  "route_ids d p tr k rm = map (route_id d p tr) [k..<k + length rm]"

definition transport_ids :: "string \<Rightarrow> string \<Rightarrow> transportMap \<Rightarrow> string list" where
  "transport_ids d p tm =
     concat (map (\<lambda>e. (''trans_'' @ d @ ''_'' @ p @ ''_'' @ fst e) # route_ids d p (fst e) 0 (snd e)) tm)"

definition purpose_ids :: "string \<Rightarrow> purposeMap \<Rightarrow> string list" where
  "purpose_ids d pm =
     concat (map (\<lambda>e. (''group_'' @ d @ ''_'' @ fst e) # transport_ids d (fst e) (snd e)) pm)"

definition group_ids :: "deptMap \<Rightarrow> string list" where
  "group_ids G = concat (map (\<lambda>e. purpose_ids (fst e) (snd e)) G)"

definition no_underscore :: "string \<Rightarrow> bool" where
  "no_underscore s = (CHR ''_'' \<notin> set s)"

definition us_head :: "string \<Rightarrow> string" where
  "us_head s = takeWhile (\<lambda>c. c \<noteq> CHR ''_'') s"

definition us_tail :: "string \<Rightarrow> string" where
  "us_tail s = drop 1 (dropWhile (\<lambda>c. c \<noteq> CHR ''_'') s)"

definition tag1 :: "string \<Rightarrow> string" where
  "tag1 s = us_head (drop 6 s)"

definition tag2 :: "string \<Rightarrow> string" where
  "tag2 s = us_head (us_tail (drop 6 s))"

definition tag3 :: "string \<Rightarrow> string" where
  "tag3 s = us_head (us_tail (us_tail (drop 6 s)))"

definition ok_transports :: "transportMap \<Rightarrow> bool" where
  "ok_transports tm = (distinct (map fst tm) \<and> (\<forall>e \<in> set tm. no_underscore (fst e)))"

definition ok_purposes :: "purposeMap \<Rightarrow> bool" where
  "ok_purposes pm =
     (distinct (map fst pm) \<and> (\<forall>e \<in> set pm. no_underscore (fst e) \<and> ok_transports (snd e)))"

definition ok_groups :: "deptMap \<Rightarrow> bool" where
  "ok_groups G =
     (distinct (map fst G) \<and> (\<forall>e \<in> set G. no_underscore (fst e) \<and> ok_purposes (snd e)))"
section \<open>Unfolding rules for evaluation\<close>

lemmas eval_defs =
  processEmissionsData_def process_row_def init_state_def positionNodes_def make_trip_def
  trip_key_def row_emissions_def num_or_def new_dept_def add_to_dept_def set_radius_def
  position_depts_def enumerate_eq_zip place_dept_def add_trip_def route_node_def
  transport_node_def purpose_node_def show_nat.simps digits36_def Let_def uses_random_def
  val_or_def getDepartmentColor_def DEPARTMENT_COLORS_def arrow_def angle_step_def

lemmas layer_defs =
  createAllTextLayers_def getLayerOpacity_def layerOpacity_def ZOOM_THRESHOLDS_def
  fadeRange_def push_layer_def createTextLayer_def createDepartmentNodeLayer_def
  createPurposeHighlightLayer_def createPurposeLabelLayer_def createTripLayer_def
  createTransportHighlightLayer_def createTransportLabelLayer_def
  createRouteHighlightLayer_def createRouteLabelLayer_def createSearchHighlightLayer_def
  text_config_def Let_def

lemma place_trip_fields [simp]:
  "t_id (place_trip x y u v t) = t_id t"
  "t_department (place_trip x y u v t) = t_department t"
  "t_purpose (place_trip x y u v t) = t_purpose t"
  "t_transportMode (place_trip x y u v t) = t_transportMode t"
  "t_route (place_trip x y u v t) = t_route t"
  "t_emissions (place_trip x y u v t) = t_emissions t"
  "t_cost (place_trip x y u v t) = t_cost t"
  "t_color (place_trip x y u v t) = t_color t"
  "t_textSize (place_trip x y u v t) = Some 8"
  by (simp_all add: place_trip_def place_trip_with_def Let_def)

lemma nodes_row_engineering:
  "map node_type (nodes (processEmissionsData U_half [row_engineering]))
     = [''department'', ''purpose-group'', ''transport-group'', ''route-group'', ''trip'']"
  by (simp add: eval_defs row_engineering_def)

lemma createAllTextLayers_empty_low_zoom:
  "z < 4 \<Longrightarrow> createAllTextLayers [] z = []"
  by (simp add: layer_defs)

section \<open>The loop over the rows\<close>

lemma first_seen_snoc:
  "first_seen (xs @ [x]) = (if x \<in> set (first_seen xs) then first_seen xs else first_seen xs @ [x])"
  by (simp add: first_seen_def)

lemma set_first_seen [simp]: "set (first_seen xs) = set xs"
  by (induction xs rule: rev_induct) (auto simp: first_seen_snoc first_seen_def)

lemma distinct_first_seen [simp]: "distinct (first_seen xs)"
  by (induction xs rule: rev_induct) (auto simp: first_seen_snoc first_seen_def)

lemma first_seen_Nil [simp]: "first_seen [] = []"
  by (simp add: first_seen_def)

lemma process_row_skip: "\<not> accepted r \<Longrightarrow> process_row U r s = s"
  by (auto simp: accepted_def process_row_def split: option.splits)

lemma accepted_key: "accepted r \<Longrightarrow> Business_Dept r = Some (dept_key r) \<and> dept_key r \<noteq> []"
  by (auto simp: accepted_def dept_key_def split: option.splits)

lemma process_row_accept:
  "accepted r \<Longrightarrow> process_row U r s =
     \<lparr>s_departments = AList.map_entry (dept_key r) (add_to_dept (row_emissions r))
         (if map_of (s_departments s) (dept_key r) = None
          then s_departments s @ [(dept_key r, new_dept (dept_key r))] else s_departments s),
      s_trips = s_trips s @ [make_trip U (s_rand s) (dept_key r) r],
      s_totalEmissions = js_add (s_totalEmissions s) (row_emissions r),
      s_rand = (if uses_random r then Suc (s_rand s) else s_rand s)\<rparr>"
  by (auto simp: accepted_def process_row_def dept_key_def Let_def split: option.splits)

lemma run_Nil [simp]: "run U [] = init_state" by (simp add: run_def)

lemma run_snoc: "run U (rows @ [r]) = process_row U r (run U rows)" by (simp add: run_def)

lemma rows_of_snoc:
  "rows_of k (rows @ [r]) = (if accepted r \<and> dept_key r = k then rows_of k rows @ [r] else rows_of k rows)"
  by (auto simp: rows_of_def dept_key_def accepted_def split: option.splits)

lemma agg_dept_snoc_same:
  "accepted r \<Longrightarrow> agg_dept (dept_key r) (rows @ [r]) = add_to_dept (row_emissions r) (agg_dept (dept_key r) rows)"
  by (simp add: agg_dept_def rows_of_snoc dept_sum_def add_to_dept_def)

lemma agg_dept_snoc_other:
  "\<not> (accepted r \<and> dept_key r = k) \<Longrightarrow> agg_dept k (rows @ [r]) = agg_dept k rows"
  by (auto simp: agg_dept_def rows_of_snoc dept_sum_def)

lemma rows_of_empty: "k \<notin> dept_key ` set (filter accepted rows) \<Longrightarrow> rows_of k rows = []"
proof -
  have "\<And>x. x \<in> set rows \<Longrightarrow> accepted x \<Longrightarrow> Business_Dept x = Some k \<Longrightarrow> dept_key x = k"
    using accepted_key by fastforce
  then show "k \<notin> dept_key ` set (filter accepted rows) \<Longrightarrow> rows_of k rows = []"
    by (force simp: rows_of_def filter_empty_conv)
qed

lemma agg_dept_new: "k \<notin> dept_key ` set (filter accepted rows) \<Longrightarrow> agg_dept k rows = new_dept k"
  by (simp add: agg_dept_def rows_of_empty dept_sum_def new_dept_def)

lemma map_entry_map_distinct:
  "distinct ks \<Longrightarrow> AList.map_entry k f (map (\<lambda>k'. (k', g k')) ks) = map (\<lambda>k'. (k', if k' = k then f (g k') else g k')) ks"
  by (induction ks) (auto simp: )

lemma map_of_map_key: "map_of (map (\<lambda>k'. (k', g k')) ks) k = (if k \<in> set ks then Some (g k) else None)"
  by (induction ks) auto

lemma dept_names_snoc:
  "dept_names (rows @ [r]) = (if accepted r then (if dept_key r \<in> set (dept_names rows) then dept_names rows else dept_names rows @ [dept_key r]) else dept_names rows)"
  by (simp add: dept_names_def first_seen_snoc)

lemma set_dept_names: "set (dept_names rows) = dept_key ` set (filter accepted rows)"
  by (simp add: dept_names_def)

lemma run_departments:
  "s_departments (run U rows) = map (\<lambda>k. (k, agg_dept k rows)) (dept_names rows)"
proof (induction rows rule: rev_induct)
  case Nil
  then show ?case by (simp add: init_state_def dept_names_def)
next
  case (snoc r rows)
  show ?case
  proof (cases "accepted r")
    case False
    then show ?thesis
      by (simp add: run_snoc process_row_skip snoc dept_names_snoc agg_dept_snoc_other)
  next
    case True
    let ?k = "dept_key r"
    have dist: "distinct (dept_names rows)" by (simp add: dept_names_def)
    show ?thesis
    proof (cases "?k \<in> set (dept_names rows)")
      case True
      with \<open>accepted r\<close> show ?thesis
        using dist
        by (simp add: run_snoc process_row_accept snoc dept_names_snoc map_of_map_key
            map_entry_map_distinct agg_dept_snoc_same agg_dept_snoc_other cong: map_cong)
    next
      case False
      then have new: "agg_dept ?k rows = new_dept ?k"
        by (simp add: agg_dept_new set_dept_names)
      have "distinct (dept_names rows @ [?k])" using dist False by simp
      from map_entry_map_distinct [OF this, of ?k "add_to_dept (row_emissions r)" "\<lambda>k. agg_dept k rows"]
      show ?thesis using False \<open>accepted r\<close> new
        by (simp add: run_snoc process_row_accept snoc dept_names_snoc map_of_map_key
            agg_dept_snoc_same agg_dept_snoc_other cong: map_cong)
    qed
  qed
qed

section \<open>The nested placement loops\<close>

lemma trips_of_append [simp]: "trips_of (xs @ ys) = trips_of xs @ trips_of ys"
  by (induction xs rule: trips_of.induct) auto

lemma unplace_place_trip [simp]: "unplace (place_trip rx ry u1 u2 t) = unplace t"
  by (simp add: unplace_def place_trip_def place_trip_with_def Let_def)

lemma place_trips_snd [simp]: "snd (place_trips U rx ry ts n) = n + 2 * length ts"
  by (induction ts arbitrary: n) (auto simp: split_beta)

lemma place_trips_fst_Cons:
  "fst (place_trips U rx ry (t # ts) n)
     = TripNode (place_trip rx ry (U n) (U (Suc n)) t) # fst (place_trips U rx ry ts (n + 2))"
  by (simp add: split_beta)

lemma place_routes_fst_Cons:
  "fst (place_routes U d p tr tx ty lr st ((r, ts) # rm) k n)
     = GroupNode (route_node d p tr k r (tx + lr * cos (real k * st)) (ty + lr * sin (real k * st)))
       # fst (place_trips U (tx + lr * cos (real k * st)) (ty + lr * sin (real k * st)) ts n)
       @ fst (place_routes U d p tr tx ty lr st rm (Suc k) (n + 2 * length ts))"
  by (simp add: split_beta Let_def)

lemma place_transports_fst_Cons:
  "fst (place_transports U d p px py lr st ((tr, rm) # tm) j n)
     = GroupNode (transport_node d p tr (px + lr * cos (real j * st)) (py + lr * sin (real j * st)))
       # fst (place_routes U d p tr (px + lr * cos (real j * st)) (py + lr * sin (real j * st))
                (if length rm > 1 then TRANSPORT_GROUP_RADIUS * 0.6 else 0)
                (angle_step (length rm)) rm 0 n)
       @ fst (place_transports U d p px py lr st tm (Suc j)
                (snd (place_routes U d p tr (px + lr * cos (real j * st)) (py + lr * sin (real j * st))
                (if length rm > 1 then TRANSPORT_GROUP_RADIUS * 0.6 else 0)
                (angle_step (length rm)) rm 0 n)))"
  by (simp add: split_beta Let_def)

lemma place_purposes_fst_Cons:
  "fst (place_purposes U d dx dy st ((p, tm) # pm) i n)
     = GroupNode (purpose_node d p (dx + DEPT_CLUSTER_RADIUS * cos (real i * st))
                    (dy + DEPT_CLUSTER_RADIUS * sin (real i * st)))
       # fst (place_transports U d p (dx + DEPT_CLUSTER_RADIUS * cos (real i * st))
                (dy + DEPT_CLUSTER_RADIUS * sin (real i * st))
                (if length tm > 1 then PURPOSE_GROUP_RADIUS * 0.65 else 0)
                (angle_step (length tm)) tm 0 n)
       @ fst (place_purposes U d dx dy st pm (Suc i)
                (snd (place_transports U d p (dx + DEPT_CLUSTER_RADIUS * cos (real i * st))
                (dy + DEPT_CLUSTER_RADIUS * sin (real i * st))
                (if length tm > 1 then PURPOSE_GROUP_RADIUS * 0.65 else 0)
                (angle_step (length tm)) tm 0 n)))"
  by (simp add: split_beta Let_def)

lemma place_groups_fst_Cons:
  "fst (place_groups U P ((d, pm) # G) n)
     = (case map_of P d of
          None \<Rightarrow> fst (place_groups U P G n)
        | Some (dx, dy) \<Rightarrow>
            fst (place_purposes U d dx dy (angle_step (length pm)) pm 0 n)
            @ fst (place_groups U P G (snd (place_purposes U d dx dy (angle_step (length pm)) pm 0 n))))"
  by (simp add: split_beta split: option.splits)

lemma place_trips_trips:
  "map unplace (trips_of (fst (place_trips U rx ry ts n))) = map unplace ts"
  by (induction ts arbitrary: n) (simp_all add: place_trips_fst_Cons del: place_trips.simps(2))

lemma place_routes_trips:
  "map unplace (trips_of (fst (place_routes U d p tr tx ty lr st rm k n))) = map unplace (route_trips rm)"
proof (induction rm arbitrary: k n)
  case Nil
  then show ?case by (simp add: route_trips_def)
next
  case (Cons e rm)
  obtain r ts where e: "e = (r, ts)" by (cases e)
  have "route_trips (e # rm) = ts @ route_trips rm" by (simp add: e route_trips_def)
  then show ?case
    unfolding e by (simp add: place_routes_fst_Cons place_trips_trips Cons.IH del: place_routes.simps(2))
qed

lemma place_transports_trips:
  "map unplace (trips_of (fst (place_transports U d p px py lr st tm j n))) = map unplace (transport_trips tm)"
proof (induction tm arbitrary: j n)
  case Nil
  then show ?case by (simp add: transport_trips_def)
next
  case (Cons e tm)
  obtain tr rm where e: "e = (tr, rm)" by (cases e)
  have "transport_trips (e # tm) = route_trips rm @ transport_trips tm" by (simp add: e transport_trips_def)
  then show ?case
    unfolding e by (simp add: place_transports_fst_Cons place_routes_trips Cons.IH del: place_transports.simps(2))
qed

lemma place_purposes_trips:
  "map unplace (trips_of (fst (place_purposes U d dx dy st pm i n))) = map unplace (purpose_trips pm)"
proof (induction pm arbitrary: i n)
  case Nil
  then show ?case by (simp add: purpose_trips_def)
next
  case (Cons e pm)
  obtain p tm where e: "e = (p, tm)" by (cases e)
  have "purpose_trips (e # pm) = transport_trips tm @ purpose_trips pm" by (simp add: e purpose_trips_def)
  then show ?case
    unfolding e by (simp add: place_purposes_fst_Cons place_transports_trips Cons.IH del: place_purposes.simps(2))
qed

lemma place_groups_trips:
  "fst ` set G \<subseteq> dom (map_of P) \<Longrightarrow>
   map unplace (trips_of (fst (place_groups U P G n))) = map unplace (all_trips G)"
proof (induction G arbitrary: n)
  case Nil
  then show ?case by (simp add: all_trips_def)
next
  case (Cons e G)
  obtain d pm where e: "e = (d, pm)" by (cases e)
  have a: "all_trips (e # G) = purpose_trips pm @ all_trips G" by (simp add: e all_trips_def)
  from Cons.prems obtain dx dy where P: "map_of P d = Some (dx, dy)" by (auto simp: e)
  from Cons.prems have "fst ` set G \<subseteq> dom (map_of P)" by simp
  then show ?case
    using a unfolding e by (simp add: place_groups_fst_Cons P place_purposes_trips Cons.IH del: place_groups.simps(2))
qed

section \<open>Filing trips into the nested maps\<close>

lemma upsert_keys: "fst ` set (upsert k d f m) = insert k (fst ` set m)"
  by (induction m) auto

lemma upsert_mset:
  assumes "\<And>v. mset (F (f v)) = mset (F v) + X" and "F d = []"
  shows "mset (concat (map (\<lambda>e. F (snd e)) (upsert k d f m)))
         = mset (concat (map (\<lambda>e. F (snd e)) m)) + X"
  using assms by (induction m) auto

lemma upsert_pred:
  assumes "\<forall>e \<in> set m. Q (fst e) (snd e)" and "Q k (f d)" and "\<And>v. Q k v \<Longrightarrow> Q k (f v)"
  shows "\<forall>e \<in> set (upsert k d f m). Q (fst e) (snd e)"
  using assms by (induction m) auto

lemma route_trips_upsert:
  "mset (route_trips (upsert r [] (\<lambda>l. l @ [t]) rm)) = mset (route_trips rm) + {#t#}"
  unfolding route_trips_def
  using upsert_mset [of "\<lambda>l. l" "\<lambda>l. l @ [t]" "{#t#}" "[]" r rm] by simp

lemma transport_trips_upsert:
  "mset (transport_trips (upsert tr [] (upsert r [] (\<lambda>l. l @ [t])) tm)) = mset (transport_trips tm) + {#t#}"
  unfolding transport_trips_def
  by (rule upsert_mset) (simp_all add: route_trips_upsert, simp add: route_trips_def)

lemma purpose_trips_upsert:
  "mset (purpose_trips (upsert p [] (upsert tr [] (upsert r [] (\<lambda>l. l @ [t]))) pm)) = mset (purpose_trips pm) + {#t#}"
  unfolding purpose_trips_def
  by (rule upsert_mset) (simp_all add: transport_trips_upsert, simp add: transport_trips_def)

lemma all_trips_add_trip: "mset (all_trips (add_trip t G)) = mset (all_trips G) + {#t#}"
  unfolding all_trips_def add_trip_def
  by (rule upsert_mset) (simp_all add: purpose_trips_upsert, simp add: purpose_trips_def)

lemma all_trips_fold: "mset (all_trips (fold add_trip ts G)) = mset (all_trips G) + mset ts"
  by (induction ts arbitrary: G) (simp_all add: all_trips_add_trip)

lemma group_keys_fold: "fst ` set (fold add_trip ts G) = fst ` set G \<union> t_department ` set ts"
  by (induction ts arbitrary: G) (auto simp: add_trip_def upsert_keys)

section \<open>The result of the aggregation\<close>

lemma processEmissionsData_run:
  "processEmissionsData U rows =
     \<lparr>nodes = map DeptNode (final_depts rows) @ group_nodes U rows,
      departments = final_depts rows,
      totalEmissions = s_totalEmissions (run U rows),
      counts_departments = length (dept_names rows),
      counts_trips = length (s_trips (run U rows))\<rparr>"
  by (simp add: processEmissionsData_def positionNodes_def run_def [symmetric] Let_def split_beta
      run_departments final_depts_def group_nodes_def dept_positions_def comp_def)

lemma run_skip: "\<not> accepted r \<Longrightarrow> run U (xs @ r # ys) = run U (xs @ ys)"
  by (simp add: run_def process_row_skip)

lemma dept_names_skip: "\<not> accepted r \<Longrightarrow> dept_names (xs @ r # ys) = dept_names (xs @ ys)"
  by (simp add: dept_names_def)

lemma rows_of_skip: "\<not> accepted r \<Longrightarrow> rows_of k (xs @ r # ys) = rows_of k (xs @ ys)"
  by (simp add: rows_of_def)

lemma processEmissionsData_skip:
  "\<not> accepted r \<Longrightarrow> processEmissionsData U (xs @ r # ys) = processEmissionsData U (xs @ ys)"
  by (simp add: processEmissionsData_run run_skip dept_names_skip final_depts_def group_nodes_def
      agg_dept_def dept_sum_def rows_of_skip)

lemma run_trips_length: "length (s_trips (run U rows)) = length (filter accepted rows)"
  by (induction rows rule: rev_induct)
     (auto simp: run_snoc process_row_skip process_row_accept init_state_def)

lemma run_trips_emissions:
  "map t_emissions (s_trips (run U rows)) = map row_emissions (filter accepted rows)"
  by (induction rows rule: rev_induct)
     (auto simp: run_snoc process_row_skip process_row_accept init_state_def make_trip_def)

lemma run_trips_department:
  "map t_department (s_trips (run U rows)) = map dept_key (filter accepted rows)"
  by (induction rows rule: rev_induct)
     (auto simp: run_snoc process_row_skip process_row_accept init_state_def make_trip_def)

lemma run_total:
  "s_totalEmissions (run U rows) = foldl js_add (Fin 0) (map row_emissions (filter accepted rows))"
  by (induction rows rule: rev_induct)
     (auto simp: run_snoc process_row_skip process_row_accept init_state_def)

lemma run_trips_unplaced: "t \<in> set (s_trips (run U rows)) \<Longrightarrow> unplace t = t"
proof (induction rows rule: rev_induct)
  case Nil
  then show ?case by (simp add: init_state_def)
next
  case (snoc r rows)
  then show ?case
    by (cases "accepted r")
       (auto simp: run_snoc process_row_skip process_row_accept make_trip_def unplace_def)
qed

lemma all_trips_Nil: "all_trips [] = []"
  by (simp add: all_trips_def)

lemma position_depts_length [simp]: "length (position_depts ds) = length ds"
  by (simp add: position_depts_def)

lemma position_depts_nth:
  "i < length ds \<Longrightarrow> position_depts ds ! i = place_dept i (ds ! i)"
  by (simp add: position_depts_def nth_enumerate_eq)

lemma position_depts_names [simp]: "map d_name (position_depts ds) = map d_name ds"
  by (rule nth_equalityI) (simp_all add: position_depts_nth place_dept_def Let_def)

lemma position_depts_emissions [simp]: "map d_emissions (position_depts ds) = map d_emissions ds"
  by (rule nth_equalityI) (simp_all add: position_depts_nth place_dept_def Let_def)

lemma position_depts_tripCount [simp]: "map d_tripCount (position_depts ds) = map d_tripCount ds"
  by (rule nth_equalityI) (simp_all add: position_depts_nth place_dept_def Let_def)

lemma final_depts_names: "map d_name (final_depts rows) = dept_names rows"
  by (simp add: final_depts_def comp_def set_radius_def agg_dept_def new_dept_def)

lemma final_depts_emissions:
  "map d_emissions (final_depts rows) = map (\<lambda>k. dept_sum k rows) (dept_names rows)"
  by (simp add: final_depts_def comp_def set_radius_def agg_dept_def new_dept_def)

lemma final_depts_tripCount:
  "map d_tripCount (final_depts rows) = map (\<lambda>k. length (rows_of k rows)) (dept_names rows)"
  by (simp add: final_depts_def comp_def set_radius_def agg_dept_def new_dept_def)

lemma dept_positions_dom_aux:
  "fst ` set (fold (\<lambda>d m. AList.update (d_name d) (d_x d, d_y d) m) ds acc) = fst ` set acc \<union> d_name ` set ds"
  by (induction ds arbitrary: acc) (auto simp: dom_update)

lemma dept_positions_dom: "dom (map_of (dept_positions ds)) = d_name ` set ds"
  by (simp add: dept_positions_def dom_map_of_conv_image_fst dept_positions_dom_aux)

lemma group_nodes_trips:
  "mset (map unplace (trips_of (group_nodes U rows))) = mset (s_trips (run U rows))"
proof -
  let ?G = "fold add_trip (s_trips (run U rows)) []"
  have "fst ` set ?G = t_department ` set (s_trips (run U rows))"
    by (simp add: group_keys_fold)
  also have "\<dots> = set (map t_department (s_trips (run U rows)))" by simp
  also have "\<dots> = set (dept_names rows)"
    by (simp only: run_trips_department set_dept_names set_map)
  also have "\<dots> = dom (map_of (dept_positions (final_depts rows)))"
    by (simp only: dept_positions_dom final_depts_names [symmetric] set_map)
  finally have "fst ` set ?G \<subseteq> dom (map_of (dept_positions (final_depts rows)))" by simp
  then have "map unplace (trips_of (group_nodes U rows)) = map unplace (all_trips ?G)"
    unfolding group_nodes_def by (rule place_groups_trips)
  then have "mset (map unplace (trips_of (group_nodes U rows))) = image_mset unplace (mset (all_trips ?G))"
    by simp
  also have "\<dots> = image_mset unplace (mset (s_trips (run U rows)))"
    by (simp add: all_trips_fold all_trips_Nil)
  also have "\<dots> = mset (map unplace (s_trips (run U rows)))"
    by simp
  also have "map unplace (s_trips (run U rows)) = s_trips (run U rows)"
    by (rule map_idI) (rule run_trips_unplaced)
  finally show ?thesis .
qed

section \<open>Kinds of the placed nodes\<close>

lemma below_dept_simps [simp]:
  "below_dept (TripNode t)"
  "below_dept (GroupNode (route_node d p tr k r x y))"
  "below_dept (GroupNode (transport_node d p tr x y))"
  "below_dept (GroupNode (purpose_node d p x y))"
  by (simp_all add: below_dept_def route_node_def transport_node_def purpose_node_def id_tag_def)

lemma place_trips_below: "list_all below_dept (fst (place_trips U rx ry ts n))"
  by (induction ts arbitrary: n) (simp_all add: place_trips_fst_Cons del: place_trips.simps(2))

lemma place_routes_below: "list_all below_dept (fst (place_routes U d p tr tx ty lr st rm k n))"
proof (induction rm arbitrary: k n)
  case (Cons e rm)
  then show ?case
    by (cases e) (simp add: place_routes_fst_Cons place_trips_below del: place_routes.simps(2))
qed simp

lemma place_transports_below: "list_all below_dept (fst (place_transports U d p px py lr st tm j n))"
proof (induction tm arbitrary: j n)
  case (Cons e tm)
  then show ?case
    by (cases e) (simp add: place_transports_fst_Cons place_routes_below del: place_transports.simps(2))
qed simp

lemma place_purposes_below: "list_all below_dept (fst (place_purposes U d dx dy st pm i n))"
proof (induction pm arbitrary: i n)
  case (Cons e pm)
  then show ?case
    by (cases e) (simp add: place_purposes_fst_Cons place_transports_below del: place_purposes.simps(2))
qed simp

lemma place_groups_below: "list_all below_dept (fst (place_groups U P G n))"
proof (induction G arbitrary: n)
  case (Cons e G)
  then show ?case
    by (cases e) (simp add: place_groups_fst_Cons place_purposes_below split: option.splits
        del: place_groups.simps(2))
qed simp

lemma group_nodes_below: "list_all below_dept (group_nodes U rows)"
  by (simp add: group_nodes_def place_groups_below)

lemma below_dept_type: "below_dept n \<Longrightarrow> node_type n \<noteq> ''department''"
  by (cases n) (auto simp: below_dept_def)

lemma below_dept_metric:
  "below_dept n \<Longrightarrow> node_type n \<noteq> ''trip'' \<Longrightarrow> node_emissions n = None \<and> node_tripCount n = None"
  by (cases n) (auto simp: below_dept_def)

lemma filter_department_nodes:
  "[n \<leftarrow> nodes (processEmissionsData U rows). node_type n = ''department'']
     = map DeptNode (departments (processEmissionsData U rows))"
proof -
  have "[n \<leftarrow> group_nodes U rows. node_type n = ''department''] = []"
    using group_nodes_below [of U rows] below_dept_type
    by (auto simp: filter_empty_conv list_all_iff)
  moreover have "[n \<leftarrow> map DeptNode (final_depts rows). node_type n = ''department'']
      = map DeptNode (final_depts rows)"
    by (simp add: filter_map comp_def)
  ultimately show ?thesis by (simp add: processEmissionsData_run)
qed

lemma trips_of_dept_nodes [simp]: "trips_of (map DeptNode ds) = []"
  by (induction ds) auto

lemma run_trips_pairs:
  "map (\<lambda>t. (t_department t, t_emissions t)) (s_trips (run U rows))
     = map (\<lambda>r. (dept_key r, row_emissions r)) (filter accepted rows)"
  by (induction rows rule: rev_induct)
     (auto simp: run_snoc process_row_skip process_row_accept init_state_def make_trip_def)

lemma rows_of_filter: "rows_of k rows = filter (\<lambda>r. dept_key r = k) (filter accepted rows)"
  using accepted_key by (auto simp: rows_of_def intro!: filter_cong)

lemma trip_leaves_of_department:
  "mset (map t_emissions [t \<leftarrow> trips_of (nodes (processEmissionsData U rows)). t_department t = k])
     = mset (map row_emissions (rows_of k rows))"
proof -
  let ?ts = "trips_of (group_nodes U rows)"
  let ?f = "\<lambda>t. (t_department t, t_emissions t)"
  have f: "?f \<circ> unplace = ?f" by (auto simp: unplace_def)
  have "mset (map ?f ?ts) = image_mset ?f (mset (map unplace ?ts))"
    by (simp add: image_mset.compositionality f)
  also have "\<dots> = mset (map ?f (s_trips (run U rows)))"
    using group_nodes_trips [of U rows] by simp
  also have "\<dots> = mset (map (\<lambda>r. (dept_key r, row_emissions r)) (filter accepted rows))"
    by (simp only: run_trips_pairs)
  finally have m: "mset (map ?f ?ts)
      = mset (map (\<lambda>r. (dept_key r, row_emissions r)) (filter accepted rows))" .
  have pick: "mset (map snd (filter (\<lambda>p. fst p = k) zs)) = image_mset snd (filter_mset (\<lambda>p. fst p = k) (mset zs))"
    for zs :: "(string \<times> jsnum) list"
    by simp
  have "map t_emissions [t \<leftarrow> ?ts. t_department t = k]
      = map snd (filter (\<lambda>p. fst p = k) (map ?f ?ts))"
    by (simp add: filter_map comp_def)
  moreover have "map row_emissions (rows_of k rows)
      = map snd (filter (\<lambda>p. fst p = k) (map (\<lambda>r. (dept_key r, row_emissions r)) (filter accepted rows)))"
    by (simp add: rows_of_filter filter_map comp_def)
  ultimately have "mset (map t_emissions [t \<leftarrow> ?ts. t_department t = k])
      = mset (map row_emissions (rows_of k rows))"
    by (simp only: pick m)
  then show ?thesis by (simp add: processEmissionsData_run)
qed

lemma trips_of_set: "t \<in> set (trips_of ns) \<longleftrightarrow> TripNode t \<in> set ns"
  by (induction ns rule: trips_of.induct) auto

lemma zero_emission_row:
  "accepted r \<Longrightarrow>
   row_emissions r = Fin 0 \<longleftrightarrow>
     (\<exists>s. Carbon_Emission r = JStr s \<and> (StringToNumber s = NaN \<or> StringToNumber s = Fin 0))"
  by (cases "Carbon_Emission r")
     (auto simp: accepted_def row_emissions_def num_or_def split: option.splits)

lemma trip_node_emissions:
  "t_emissions ` set (trips_of (nodes (processEmissionsData U rows)))
     = row_emissions ` set (filter accepted rows)"
proof -
  have "mset (map t_emissions (trips_of (group_nodes U rows)))
      = image_mset t_emissions (image_mset unplace (mset (trips_of (group_nodes U rows))))"
    by (simp add: image_mset.compositionality comp_def unplace_def)
  also have "\<dots> = mset (map t_emissions (s_trips (run U rows)))"
    using group_nodes_trips [of U rows] by simp
  finally have "set_mset (mset (map t_emissions (trips_of (group_nodes U rows))))
      = set_mset (mset (map row_emissions (filter accepted rows)))"
    by (simp only: run_trips_emissions)
  then show ?thesis by (simp add: processEmissionsData_run)
qed

lemma position_depts_triple:
  "map (\<lambda>d. (d_name d, d_emissions d, d_tripCount d)) (position_depts ds)
     = map (\<lambda>d. (d_name d, d_emissions d, d_tripCount d)) ds"
  by (rule nth_equalityI) (simp_all add: position_depts_nth place_dept_def Let_def)

lemma second_node_row_engineering:
  "nodes (processEmissionsData U_half [row_engineering]) ! 1
     = GroupNode (purpose_node ''Engineering'' ''Training'' 180 0)"
  by (simp add: eval_defs row_engineering_def DEPT_CLUSTER_RADIUS_def)

section \<open>Trips and their route groups\<close>

lemma anchored_mono:
  "anchored U out T t' \<Longrightarrow> set out \<subseteq> set out' \<Longrightarrow> T \<subseteq> T' \<Longrightarrow> anchored U out' T' t'"
  unfolding anchored_def by blast

lemma wf_groups_add_trip: "wf_groups G \<Longrightarrow> wf_groups (add_trip t G)"
proof -
  assume G: "wf_groups G"
  let ?d = "t_department t" and ?p = "t_purpose t" and ?tr = "transport_key t" and ?r = "route_key t"
  have r: "wf_routes ?d ?p ?tr (upsert ?r [] (\<lambda>l. l @ [t]) rm)"
    if "wf_routes ?d ?p ?tr rm" for rm
    unfolding wf_routes_def
    by (rule upsert_pred [where Q = "\<lambda>k v. \<forall>t \<in> set v. under ?d ?p ?tr k t"])
       (use that in \<open>auto simp: under_def wf_routes_def\<close>)
  have tr: "wf_transports ?d ?p (upsert ?tr [] (upsert ?r [] (\<lambda>l. l @ [t])) tm)"
    if "wf_transports ?d ?p tm" for tm
    unfolding wf_transports_def
  proof (rule upsert_pred [where Q = "wf_routes ?d ?p"])
    show "\<forall>e \<in> set tm. wf_routes ?d ?p (fst e) (snd e)"
      using that by (simp add: wf_transports_def)
    show "wf_routes ?d ?p ?tr (upsert ?r [] (\<lambda>l. l @ [t]) [])"
      by (rule r) (simp add: wf_routes_def)
    show "\<And>v. wf_routes ?d ?p ?tr v \<Longrightarrow> wf_routes ?d ?p ?tr (upsert ?r [] (\<lambda>l. l @ [t]) v)"
      by (rule r)
  qed
  have p: "wf_purposes ?d (upsert ?p [] (upsert ?tr [] (upsert ?r [] (\<lambda>l. l @ [t]))) pm)"
    if "wf_purposes ?d pm" for pm
    unfolding wf_purposes_def
  proof (rule upsert_pred [where Q = "wf_transports ?d"])
    show "\<forall>e \<in> set pm. wf_transports ?d (fst e) (snd e)"
      using that by (simp add: wf_purposes_def)
    show "wf_transports ?d ?p (upsert ?tr [] (upsert ?r [] (\<lambda>l. l @ [t])) [])"
      by (rule tr) (simp add: wf_transports_def)
    show "\<And>v. wf_transports ?d ?p v
        \<Longrightarrow> wf_transports ?d ?p (upsert ?tr [] (upsert ?r [] (\<lambda>l. l @ [t])) v)"
      by (rule tr)
  qed
  show ?thesis
    unfolding wf_groups_def add_trip_def transport_key_def [symmetric] route_key_def [symmetric]
  proof (rule upsert_pred [where Q = wf_purposes])
    show "\<forall>e \<in> set G. wf_purposes (fst e) (snd e)"
      using G by (simp add: wf_groups_def)
    show "wf_purposes ?d (upsert ?p [] (upsert ?tr [] (upsert ?r [] (\<lambda>l. l @ [t]))) [])"
      by (rule p) (simp add: wf_purposes_def)
    show "\<And>v. wf_purposes ?d v
        \<Longrightarrow> wf_purposes ?d (upsert ?p [] (upsert ?tr [] (upsert ?r [] (\<lambda>l. l @ [t]))) v)"
      by (rule p)
  qed
qed

lemma wf_groups_fold: "wf_groups G \<Longrightarrow> wf_groups (fold add_trip ts G)"
  by (induction ts arbitrary: G) (simp_all add: wf_groups_add_trip)

lemma place_trips_anchor:
  "TripNode t' \<in> set (fst (place_trips U rx ry ts n)) \<Longrightarrow>
   \<exists>i t. t \<in> set ts \<and> t' = place_trip rx ry (U i) (U (Suc i)) t"
proof (induction ts arbitrary: n)
  case Nil
  then show ?case by simp
next
  case (Cons a ts)
  from Cons.prems consider "t' = place_trip rx ry (U n) (U (Suc n)) a"
    | "TripNode t' \<in> set (fst (place_trips U rx ry ts (n + 2)))"
    by (auto simp: place_trips_fst_Cons simp del: place_trips.simps(2))
  then show ?case
  proof cases
    case 1
    then show ?thesis by auto
  next
    case 2
    from Cons.IH [OF 2] show ?thesis by auto
  qed
qed

lemma place_routes_anchor:
  "wf_routes d p tr rm \<Longrightarrow>
   TripNode t' \<in> set (fst (place_routes U d p tr tx ty lr st rm k n)) \<Longrightarrow>
   anchored U (fst (place_routes U d p tr tx ty lr st rm k n)) (set (route_trips rm)) t'"
proof (induction rm arbitrary: k n)
  case Nil
  then show ?case by simp
next
  case (Cons e rm)
  obtain r ts where e: "e = (r, ts)" by (cases e)
  let ?x = "tx + lr * cos (real k * st)" and ?y = "ty + lr * sin (real k * st)"
  let ?g = "route_node d p tr k r ?x ?y"
  let ?tn = "fst (place_trips U ?x ?y ts n)"
  let ?rn = "fst (place_routes U d p tr tx ty lr st rm (Suc k) (n + 2 * length ts))"
  have out: "fst (place_routes U d p tr tx ty lr st (e # rm) k n) = GroupNode ?g # ?tn @ ?rn"
    by (simp add: e place_routes_fst_Cons del: place_routes.simps(2))
  have rt: "route_trips (e # rm) = ts @ route_trips rm" by (simp add: e route_trips_def)
  from Cons.prems(1) have wf: "wf_routes d p tr rm" and u: "\<forall>t \<in> set ts. under d p tr r t"
    by (auto simp: wf_routes_def e)
  from Cons.prems(2) consider "TripNode t' \<in> set ?tn" | "TripNode t' \<in> set ?rn"
    unfolding out by auto
  then show ?case
  proof cases
    case 1
    then obtain i t where t: "t \<in> set ts" "t' = place_trip ?x ?y (U i) (U (Suc i)) t"
      using place_trips_anchor by blast
    with u have "under d p tr r t" by blast
    then show ?thesis
      unfolding anchored_def out rt
      by (intro exI [of _ ?g] exI [of _ i] exI [of _ t])
         (use t in \<open>simp add: route_node_def under_def\<close>)
  next
    case 2
    from Cons.IH [OF wf 2] show ?thesis
      unfolding out rt by (rule anchored_mono) auto
  qed
qed

lemma place_transports_anchor:
  "wf_transports d p tm \<Longrightarrow>
   TripNode t' \<in> set (fst (place_transports U d p px py lr st tm j n)) \<Longrightarrow>
   anchored U (fst (place_transports U d p px py lr st tm j n)) (set (transport_trips tm)) t'"
proof (induction tm arbitrary: j n)
  case Nil
  then show ?case by simp
next
  case (Cons e tm)
  obtain tr rm where e: "e = (tr, rm)" by (cases e)
  have tt: "transport_trips (e # tm) = route_trips rm @ transport_trips tm"
    by (simp add: e transport_trips_def)
  from Cons.prems(1) have wf: "wf_transports d p tm" and wr: "wf_routes d p tr rm"
    by (auto simp: wf_transports_def e)
  obtain g rn tn where out: "fst (place_transports U d p px py lr st (e # tm) j n) = GroupNode g # rn @ tn"
    and rn: "\<exists>tx ty lr' st' k m. rn = fst (place_routes U d p tr tx ty lr' st' rm k m)"
    and tn: "\<exists>j' m. tn = fst (place_transports U d p px py lr st tm j' m)"
    unfolding e place_transports_fst_Cons by blast
  from Cons.prems(2) consider "TripNode t' \<in> set rn" | "TripNode t' \<in> set tn"
    unfolding out by auto
  then show ?case
  proof cases
    case 1
    with rn wr have "anchored U rn (set (route_trips rm)) t'"
      using place_routes_anchor by blast
    then show ?thesis unfolding out tt by (rule anchored_mono) auto
  next
    case 2
    with tn wf have "anchored U tn (set (transport_trips tm)) t'"
      using Cons.IH by blast
    then show ?thesis unfolding out tt by (rule anchored_mono) auto
  qed
qed

lemma place_purposes_anchor:
  "wf_purposes d pm \<Longrightarrow>
   TripNode t' \<in> set (fst (place_purposes U d dx dy st pm i n)) \<Longrightarrow>
   anchored U (fst (place_purposes U d dx dy st pm i n)) (set (purpose_trips pm)) t'"
proof (induction pm arbitrary: i n)
  case Nil
  then show ?case by simp
next
  case (Cons e pm)
  obtain p tm where e: "e = (p, tm)" by (cases e)
  have tt: "purpose_trips (e # pm) = transport_trips tm @ purpose_trips pm"
    by (simp add: e purpose_trips_def)
  from Cons.prems(1) have wf: "wf_purposes d pm" and wr: "wf_transports d p tm"
    by (auto simp: wf_purposes_def e)
  obtain g tn pn where out: "fst (place_purposes U d dx dy st (e # pm) i n) = GroupNode g # tn @ pn"
    and tn: "\<exists>px py lr' st' k m. tn = fst (place_transports U d p px py lr' st' tm k m)"
    and pn: "\<exists>i' m. pn = fst (place_purposes U d dx dy st pm i' m)"
    unfolding e place_purposes_fst_Cons by blast
  from Cons.prems(2) consider "TripNode t' \<in> set tn" | "TripNode t' \<in> set pn"
    unfolding out by auto
  then show ?case
  proof cases
    case 1
    with tn wr have "anchored U tn (set (transport_trips tm)) t'"
      using place_transports_anchor by blast
    then show ?thesis unfolding out tt by (rule anchored_mono) auto
  next
    case 2
    with pn wf have "anchored U pn (set (purpose_trips pm)) t'"
      using Cons.IH by blast
    then show ?thesis unfolding out tt by (rule anchored_mono) auto
  qed
qed

lemma place_groups_anchor:
  "wf_groups G \<Longrightarrow>
   TripNode t' \<in> set (fst (place_groups U P G n)) \<Longrightarrow>
   anchored U (fst (place_groups U P G n)) (set (all_trips G)) t'"
proof (induction G arbitrary: n)
  case Nil
  then show ?case by simp
next
  case (Cons e G)
  obtain d pm where e: "e = (d, pm)" by (cases e)
  have tt: "all_trips (e # G) = purpose_trips pm @ all_trips G"
    by (simp add: e all_trips_def)
  from Cons.prems(1) have wf: "wf_groups G" and wr: "wf_purposes d pm"
    by (auto simp: wf_groups_def e)
  show ?case
  proof (cases "map_of P d")
    case None
    then have out: "fst (place_groups U P (e # G) n) = fst (place_groups U P G n)"
      by (simp add: e place_groups_fst_Cons del: place_groups.simps(2))
    from Cons.IH [OF wf, of n] Cons.prems(2) show ?thesis
      unfolding out tt by (auto elim!: anchored_mono)
  next
    case (Some xy)
    obtain dx dy where xy: "xy = (dx, dy)" by (cases xy)
    obtain pn gn where out: "fst (place_groups U P (e # G) n) = pn @ gn"
      and pn: "\<exists>st i m. pn = fst (place_purposes U d dx dy st pm i m)"
      and gn: "\<exists>m. gn = fst (place_groups U P G m)"
      unfolding e place_groups_fst_Cons using Some xy by simp blast
    from Cons.prems(2) consider "TripNode t' \<in> set pn" | "TripNode t' \<in> set gn"
      unfolding out by auto
    then show ?thesis
    proof cases
      case 1
      with pn wr have "anchored U pn (set (purpose_trips pm)) t'"
        using place_purposes_anchor by blast
      then show ?thesis unfolding out tt by (rule anchored_mono) auto
    next
      case 2
      with gn wf have "anchored U gn (set (all_trips G)) t'"
        using Cons.IH by blast
      then show ?thesis unfolding out tt by (rule anchored_mono) auto
    qed
  qed
qed

lemma text_or_nonempty: "d \<noteq> [] \<Longrightarrow> text_or c d \<noteq> []"
  by (cases c) auto

lemma run_trips_keys:
  "t \<in> set (s_trips (run U rows)) \<Longrightarrow> transport_key t = t_transportMode t \<and> route_key t = t_route t"
proof (induction rows rule: rev_induct)
  case Nil
  then show ?case by (simp add: init_state_def)
next
  case (snoc r rows)
  from snoc show ?case
    by (cases "accepted r")
       (auto simp: run_snoc process_row_skip process_row_accept make_trip_def transport_key_def
          route_key_def arrow_def text_or_nonempty)
qed

lemma nodes_single_row:
  "nodes (processEmissionsData U_half [row_engineering]) ! 4
     \<in> set (nodes (processEmissionsData U_half [row_engineering]))"
  by (rule nth_mem) (simp add: eval_defs row_engineering_def)

section \<open>Rounding to binary64\<close>

text \<open>
  The rounding changes a number by at most the fraction \<open>2^-53\<close> of its magnitude
  (\<open>rnd_error\<close>); \<open>rnd_at\<close> computes it for a number whose exponent is known.
\<close>

lemma pow2_powr: "pow2 k = 2 powr (of_int k)"
  by (simp add: pow2_def powr_real_of_int field_simps)

lemma pow2_pos [simp]: "0 < pow2 k"
  by (simp add: pow2_powr)

lemma pow2_nz [simp]: "pow2 k \<noteq> 0"
  by (simp add: pow2_def)

lemma pow2_add: "pow2 (j + k) = pow2 j * pow2 k"
  by (simp add: pow2_powr powr_add)

lemma expo_le: "x \<noteq> 0 \<Longrightarrow> pow2 (expo x) \<le> \<bar>x\<bar>"
proof -
  assume "x \<noteq> 0"
  then have "0 < \<bar>x\<bar>" by simp
  have "of_int (expo x) \<le> log 2 \<bar>x\<bar>" by (simp add: expo_def)
  then have "2 powr (of_int (expo x)) \<le> 2 powr (log 2 \<bar>x\<bar>)" by simp
  with \<open>0 < \<bar>x\<bar>\<close> show ?thesis by (simp add: pow2_powr)
qed

lemma expo_eq: "pow2 k \<le> \<bar>x\<bar> \<Longrightarrow> \<bar>x\<bar> < pow2 (k + 1) \<Longrightarrow> expo x = k"
proof -
  assume a: "pow2 k \<le> \<bar>x\<bar>" "\<bar>x\<bar> < pow2 (k + 1)"
  then have "0 < \<bar>x\<bar>" using pow2_pos [of k] by linarith
  with a show ?thesis
    unfolding expo_def by (subst floor_log_eq_powr_iff) (simp_all add: pow2_powr)
qed

lemma rne_error: "\<bar>of_int (rne x) - x\<bar> \<le> 1 / 2"
  unfolding rne_def by (auto simp: abs_if) linarith+

lemma rne_near: "\<bar>x - of_int f\<bar> < 1 / 2 \<Longrightarrow> rne x = f"
proof -
  assume a: "\<bar>x - of_int f\<bar> < 1 / 2"
  show ?thesis
  proof (cases "of_int f \<le> x")
    case True
    with a have "\<lfloor>x\<rfloor> = f" by linarith
    with a True show ?thesis by (simp add: rne_def)
  next
    case False
    with a have fl: "\<lfloor>x\<rfloor> = f - 1" by linarith
    with a False have "x - of_int \<lfloor>x\<rfloor> > 1 / 2" by simp
    with fl show ?thesis by (simp add: rne_def)
  qed
qed

lemma rnd_error: "\<bar>rnd x - x\<bar> \<le> \<bar>x\<bar> / 2 ^ 53"
proof (cases "x = 0")
  case True
  then show ?thesis by (simp add: rnd_def)
next
  case False
  let ?p = "pow2 (expo x - 52)"
  have p: "0 < ?p" by simp
  have "rnd x - x = (of_int (rne (x / ?p)) - x / ?p) * ?p"
    using False p by (simp add: rnd_def field_simps)
  then have "\<bar>rnd x - x\<bar> = \<bar>of_int (rne (x / ?p)) - x / ?p\<bar> * ?p"
    using p by (simp add: abs_mult abs_of_pos)
  also have "\<dots> \<le> 1 / 2 * ?p"
    by (rule mult_right_mono [OF rne_error less_imp_le [OF p]])
  also have "?p = pow2 (expo x) / 2 ^ 52"
    using pow2_add [of "expo x" "- 52"] by (simp add: pow2_def)
  also have "1 / 2 * (pow2 (expo x) / 2 ^ 52) = pow2 (expo x) / 2 ^ 53" by simp
  also have "\<dots> \<le> \<bar>x\<bar> / 2 ^ 53"
    using expo_le [OF False] by (simp add: divide_right_mono)
  finally show ?thesis .
qed

lemma rnd_abs: "\<bar>rnd x\<bar> \<le> \<bar>x\<bar> * (1 + 1 / 2 ^ 53)"
proof -
  have "\<bar>rnd x\<bar> \<le> \<bar>x\<bar> + \<bar>rnd x - x\<bar>" by linarith
  also have "\<dots> \<le> \<bar>x\<bar> + \<bar>x\<bar> / 2 ^ 53" using rnd_error [of x] by simp
  also have "\<dots> = \<bar>x\<bar> * (1 + 1 / 2 ^ 53)" by (simp add: algebra_simps)
  finally show ?thesis .
qed

lemma rnd_at:
  "pow2 k \<le> \<bar>x\<bar> \<Longrightarrow> \<bar>x\<bar> < pow2 (k + 1) \<Longrightarrow>
   rnd x = of_int (rne (x / pow2 (k - 52))) * pow2 (k - 52)"
proof -
  assume a: "pow2 k \<le> \<bar>x\<bar>" "\<bar>x\<bar> < pow2 (k + 1)"
  have "0 < \<bar>x\<bar>" using pow2_pos [of k] a(1) by linarith
  then have "x \<noteq> 0" by simp
  with expo_eq [OF a] show ?thesis by (simp add: rnd_def)
qed

lemma rnd_0: "rnd 0 = 0" by (simp add: rnd_def)

lemma rnd_1: "rnd 1 = 1"
  using rnd_at [of 0 1] by (simp add: pow2_def rne_def)

section \<open>The placement of a trip at a draw next to 1\<close>

lemma sqrt_edge: "rnd (sqrt (1 - 1 / 2 ^ 52)) = 1 - 1 / 2 ^ 53"
proof -
  let ?s = "sqrt (1 - 1 / 2 ^ 52) :: real"
  have lo: "1 - 3 / 2 ^ 54 < ?s"
    by (rule real_less_rsqrt) (simp add: power2_eq_square)
  have hi: "?s \<le> 1 - 1 / 2 ^ 53"
    by (rule real_le_lsqrt) (simp_all add: power2_eq_square)
  have pos: "0 < ?s" by simp
  have a: "pow2 (- 1) \<le> \<bar>?s\<bar>" using lo pos by (simp add: pow2_def abs_of_pos del: real_sqrt_gt_0_iff real_sqrt_lt_0_iff)
  have b: "\<bar>?s\<bar> < pow2 (- 1 + 1)" using hi pos by (simp add: pow2_def abs_of_pos del: real_sqrt_gt_0_iff)
  have n: "rne (?s / pow2 (- 1 - 52)) = 2 ^ 53 - 1"
    by (rule rne_near) (use lo hi in \<open>simp add: pow2_def abs_if\<close>)
  from rnd_at [OF a b] n show ?thesis by (simp add: pow2_def)
qed

lemma rnd_6_edge: "rnd (6 * (1 - 1 / 2 ^ 53)) = 6755399441055743 / 1125899906842624"
  using rnd_at [of 2 "6 * (1 - 1 / 2 ^ 53)"] by (simp add: pow2_def rne_def)

lemma rnd_08: "rnd 0.8 = 3602879701896397 / 4503599627370496"
  using rnd_at [of "-1" "0.8"] by (simp add: pow2_def rne_def)

lemma rnd_r_edge:
  "rnd (6755399441055743 / 1125899906842624 * (3602879701896397 / 4503599627370496))
     = 5404319552844595 / 1125899906842624"
  using rnd_at [of 2 "6755399441055743 / 1125899906842624 * (3602879701896397 / 4503599627370496)"]
  by (simp add: pow2_def rne_def)

lemma rnd_r_fix:
  "rnd (5404319552844595 / 1125899906842624) = 5404319552844595 / 1125899906842624"
  using rnd_at [of 2 "5404319552844595 / 1125899906842624"]
  by (simp add: pow2_def rne_def)

lemma rnd_x_edge:
  "rnd (180 + 5404319552844595 / 1125899906842624) = 3251035981008077 / 17592186044416"
  using rnd_at [of 7 "180 + 5404319552844595 / 1125899906842624"]
  by (simp add: pow2_def rne_def)

lemma place_trip_edge:
  "place_trip 180 0 (U_edge 0) (U_edge (Suc 0)) t
     = t\<lparr>t_x := 3251035981008077 / 17592186044416, t_y := 0, t_textSize := Some 8\<rparr>"
proof -
  have "place_trip 180 0 (U_edge 0) (U_edge (Suc 0)) t
     = t\<lparr>t_x := rnd (180 + rnd (rnd (rnd (6 * rnd (sqrt (1 - 1 / 2 ^ 52))) * rnd 0.8)
                 * rnd (cos (rnd (rnd (0 * 2) * rnd pi))))),
         t_y := rnd (0 + rnd (rnd (rnd (6 * rnd (sqrt (1 - 1 / 2 ^ 52))) * rnd 0.8)
                 * rnd (sin (rnd (rnd (0 * 2) * rnd pi))))),
         t_textSize := Some 8\<rparr>"
    by (simp only: place_trip_def place_trip_with_def Math_sqrt_def Math_cos_def Math_sin_def
          Math_PI_def ROUTE_GROUP_RADIUS_def U_edge_def Let_def
          if_True if_False refl nat.simps)
  also have "\<dots> = t\<lparr>t_x := 3251035981008077 / 17592186044416, t_y := 0, t_textSize := Some 8\<rparr>"
    by (simp only: sqrt_edge rnd_6_edge rnd_08 rnd_r_edge mult_zero_left mult_zero_right rnd_0
          cos_zero sin_zero rnd_1 mult_1_right rnd_r_fix rnd_x_edge add_0_left)
  finally show ?thesis .
qed


section \<open>The distance of a trip from its route centre\<close>

text \<open>
  The bound \<open>place_trip_with_bound\<close> asks of the cosine and the sine only that
  the point they return lies within \<open>1 + 2^-52\<close> of the origin, as it does for
  every implementation that errs by at most one unit in the last place; the correctly
  rounded functions of \<open>place_trip\<close> are one such implementation
  (\<open>rounded_trig\<close>).
\<close>

lemma sqrt_sum_squares_mono:
  fixes a b A B :: real
  assumes "\<bar>a\<bar> \<le> A" "\<bar>b\<bar> \<le> B"
  shows "sqrt (a\<^sup>2 + b\<^sup>2) \<le> sqrt (A\<^sup>2 + B\<^sup>2)"
proof -
  from assms have "\<bar>a\<bar> \<le> \<bar>A\<bar>" "\<bar>b\<bar> \<le> \<bar>B\<bar>" by linarith+
  then have "a\<^sup>2 \<le> A\<^sup>2" "b\<^sup>2 \<le> B\<^sup>2" by (simp_all only: abs_le_square_iff)
  then show ?thesis by (intro real_sqrt_le_mono add_mono)
qed

lemma sqrt_sum_squares_scale:
  fixes k a b :: real
  shows "sqrt ((k * a)\<^sup>2 + (k * b)\<^sup>2) = \<bar>k\<bar> * sqrt (a\<^sup>2 + b\<^sup>2)"
proof -
  have "(k * a)\<^sup>2 + (k * b)\<^sup>2 = k\<^sup>2 * (a\<^sup>2 + b\<^sup>2)"
    by (simp only: power_mult_distrib distrib_left)
  then show ?thesis by (simp only: real_sqrt_mult real_sqrt_abs)
qed

lemma rounded_trig:
  "(Math_cos a)\<^sup>2 + (Math_sin a)\<^sup>2 \<le> (1 + 1 / 2 ^ 52)\<^sup>2"
proof -
  let ?q = "1 + 1 / 2 ^ 53 :: real"
  have "sqrt ((Math_cos a)\<^sup>2 + (Math_sin a)\<^sup>2) \<le> sqrt ((\<bar>cos a\<bar> * ?q)\<^sup>2 + (\<bar>sin a\<bar> * ?q)\<^sup>2)"
    unfolding Math_cos_def Math_sin_def by (rule sqrt_sum_squares_mono) (rule rnd_abs)+
  also have "\<dots> = sqrt ((?q * cos a)\<^sup>2 + (?q * sin a)\<^sup>2)"
    by (simp only: power_mult_distrib power2_abs mult.commute)
  also have "\<dots> = \<bar>?q\<bar> * sqrt ((cos a)\<^sup>2 + (sin a)\<^sup>2)"
    by (rule sqrt_sum_squares_scale)
  also have "\<dots> = ?q" by simp
  also have "\<dots> \<le> 1 + 1 / 2 ^ 52" by simp
  finally have "sqrt ((Math_cos a)\<^sup>2 + (Math_sin a)\<^sup>2) \<le> 1 + 1 / 2 ^ 52" .
  then have "sqrt ((Math_cos a)\<^sup>2 + (Math_sin a)\<^sup>2) \<le> sqrt ((1 + 1 / 2 ^ 52)\<^sup>2)"
    by simp
  then show ?thesis by (simp only: real_sqrt_le_iff)
qed

lemma radius_bound:
  assumes "0 \<le> u" "u < 1"
  shows "\<bar>rnd (rnd (ROUTE_GROUP_RADIUS * Math_sqrt u) * rnd 0.8)\<bar>
      \<le> 0.8 * ROUTE_GROUP_RADIUS * sqrt u * (1 + 1 / 2 ^ 53) ^ 4"
proof -
  let ?q = "1 + 1 / 2 ^ 53 :: real"
  have q: "0 \<le> ?q" by simp
  have s: "\<bar>Math_sqrt u\<bar> \<le> sqrt u * ?q"
    using rnd_abs [of "sqrt u"] assms by (simp add: Math_sqrt_def)
  have "\<bar>rnd (ROUTE_GROUP_RADIUS * Math_sqrt u)\<bar> \<le> \<bar>ROUTE_GROUP_RADIUS * Math_sqrt u\<bar> * ?q"
    by (rule rnd_abs)
  also have "\<bar>ROUTE_GROUP_RADIUS * Math_sqrt u\<bar> = 6 * \<bar>Math_sqrt u\<bar>"
    by (simp add: ROUTE_GROUP_RADIUS_def abs_mult)
  also have "6 * \<bar>Math_sqrt u\<bar> * ?q \<le> 6 * (sqrt u * ?q) * ?q"
    using s by (intro mult_right_mono mult_left_mono) simp_all
  finally have a: "\<bar>rnd (ROUTE_GROUP_RADIUS * Math_sqrt u)\<bar> \<le> 6 * (sqrt u * ?q) * ?q" .
  have d: "\<bar>rnd 0.8\<bar> \<le> 0.8 * ?q"
    using rnd_abs [of "0.8"] by simp
  have "\<bar>rnd (rnd (ROUTE_GROUP_RADIUS * Math_sqrt u) * rnd 0.8)\<bar>
      \<le> \<bar>rnd (ROUTE_GROUP_RADIUS * Math_sqrt u) * rnd 0.8\<bar> * ?q"
    by (rule rnd_abs)
  also have "\<bar>rnd (ROUTE_GROUP_RADIUS * Math_sqrt u) * rnd 0.8\<bar>
      = \<bar>rnd (ROUTE_GROUP_RADIUS * Math_sqrt u)\<bar> * \<bar>rnd 0.8\<bar>"
    by (rule abs_mult)
  also have "\<bar>rnd (ROUTE_GROUP_RADIUS * Math_sqrt u)\<bar> * \<bar>rnd 0.8\<bar> * ?q
      \<le> (6 * (sqrt u * ?q) * ?q) * (0.8 * ?q) * ?q"
    using a d assms by (intro mult_right_mono mult_mono) simp_all
  also have "\<dots> = 0.8 * ROUTE_GROUP_RADIUS * sqrt u * ?q ^ 4"
    by (simp add: ROUTE_GROUP_RADIUS_def power4_eq_xxxx)
  finally show ?thesis .
qed

lemma rounded_sum_bound:
  fixes cx cy px py :: real
  shows "sqrt ((rnd (cx + px) - cx)\<^sup>2 + (rnd (cy + py) - cy)\<^sup>2)
      \<le> sqrt (cx\<^sup>2 + cy\<^sup>2) / 2 ^ 53 + (1 + 1 / 2 ^ 53) * sqrt (px\<^sup>2 + py\<^sup>2)"
proof -
  let ?ex = "rnd (cx + px) - (cx + px)" and ?ey = "rnd (cy + py) - (cy + py)"
  let ?C = "sqrt (cx\<^sup>2 + cy\<^sup>2)" and ?P = "sqrt (px\<^sup>2 + py\<^sup>2)"
  have "sqrt (?ex\<^sup>2 + ?ey\<^sup>2) \<le> sqrt ((\<bar>cx + px\<bar> / 2 ^ 53)\<^sup>2 + (\<bar>cy + py\<bar> / 2 ^ 53)\<^sup>2)"
    by (rule sqrt_sum_squares_mono) (rule rnd_error)+
  also have "\<dots> = sqrt ((1 / 2 ^ 53 * (cx + px))\<^sup>2 + (1 / 2 ^ 53 * (cy + py))\<^sup>2)"
    by (simp add: power_divide)
  also have "\<dots> = \<bar>1 / 2 ^ 53\<bar> * sqrt ((cx + px)\<^sup>2 + (cy + py)\<^sup>2)"
    by (rule sqrt_sum_squares_scale)
  also have "\<dots> \<le> \<bar>1 / 2 ^ 53\<bar> * (?C + ?P)"
    by (intro mult_left_mono real_sqrt_sum_squares_triangle_ineq) simp
  finally have e: "sqrt (?ex\<^sup>2 + ?ey\<^sup>2) \<le> (?C + ?P) / 2 ^ 53" by simp
  have "rnd (cx + px) - cx = ?ex + px" "rnd (cy + py) - cy = ?ey + py" by simp_all
  then have "sqrt ((rnd (cx + px) - cx)\<^sup>2 + (rnd (cy + py) - cy)\<^sup>2)
      = sqrt ((?ex + px)\<^sup>2 + (?ey + py)\<^sup>2)" by (simp only:)
  also have "\<dots> \<le> sqrt (?ex\<^sup>2 + ?ey\<^sup>2) + ?P"
    by (rule real_sqrt_sum_squares_triangle_ineq)
  also have "\<dots> \<le> (?C + ?P) / 2 ^ 53 + ?P" using e by simp
  also have "\<dots> = ?C / 2 ^ 53 + (1 + 1 / 2 ^ 53) * ?P" by (simp add: field_simps)
  finally show ?thesis .
qed

lemma place_trip_with_bound:
  assumes u: "0 \<le> u1" "u1 < 1"
    and trig: "\<forall>a. (mcos a)\<^sup>2 + (msin a)\<^sup>2 \<le> (1 + 1 / 2 ^ 52)\<^sup>2"
  shows "sqrt ((t_x (place_trip_with mcos msin cx cy u1 u2 t) - cx)\<^sup>2
             + (t_y (place_trip_with mcos msin cx cy u1 u2 t) - cy)\<^sup>2)
      < 0.8 * ROUTE_GROUP_RADIUS * ((1 + 1 / 2 ^ 53) ^ 6 * (1 + 1 / 2 ^ 52))
        + sqrt (cx\<^sup>2 + cy\<^sup>2) / 2 ^ 53"
proof -
  let ?q = "1 + 1 / 2 ^ 53 :: real"
  let ?r = "rnd (rnd (ROUTE_GROUP_RADIUS * Math_sqrt u1) * rnd 0.8)"
  let ?a = "rnd (rnd (u2 * 2) * Math_PI)"
  let ?px = "rnd (?r * mcos ?a)" and ?py = "rnd (?r * msin ?a)"
  let ?R = "0.8 * ROUTE_GROUP_RADIUS * sqrt u1 * ?q ^ 4"
  have q: "0 < ?q" by simp
  have R0: "0 \<le> ?R" using u by (simp add: ROUTE_GROUP_RADIUS_def)
  have r: "\<bar>?r\<bar> \<le> ?R" by (rule radius_bound [OF u])
  have t: "sqrt ((mcos ?a)\<^sup>2 + (msin ?a)\<^sup>2) \<le> 1 + 1 / 2 ^ 52"
  proof -
    from trig have "sqrt ((mcos ?a)\<^sup>2 + (msin ?a)\<^sup>2) \<le> sqrt ((1 + 1 / 2 ^ 52)\<^sup>2)"
      by (simp only: real_sqrt_le_iff)
    then show ?thesis by simp
  qed
  have "sqrt (?px\<^sup>2 + ?py\<^sup>2)
      \<le> sqrt ((\<bar>?r * mcos ?a\<bar> * ?q)\<^sup>2 + (\<bar>?r * msin ?a\<bar> * ?q)\<^sup>2)"
    by (rule sqrt_sum_squares_mono) (rule rnd_abs)+
  also have "\<dots> = sqrt (((?r * ?q) * mcos ?a)\<^sup>2 + ((?r * ?q) * msin ?a)\<^sup>2)"
    by (simp only: power_mult_distrib power2_abs mult.commute mult.left_commute)
  also have "\<dots> = \<bar>?r * ?q\<bar> * sqrt ((mcos ?a)\<^sup>2 + (msin ?a)\<^sup>2)"
    by (rule sqrt_sum_squares_scale)
  also have "\<dots> \<le> (?R * ?q) * (1 + 1 / 2 ^ 52)"
  proof (rule mult_mono [OF _ t])
    show "\<bar>?r * ?q\<bar> \<le> ?R * ?q"
      using r q by (simp only: abs_mult abs_of_pos [OF q]) (rule mult_right_mono, simp_all)
    show "0 \<le> ?R * ?q" using R0 q by simp
    show "0 \<le> sqrt ((mcos ?a)\<^sup>2 + (msin ?a)\<^sup>2)" by simp
  qed
  finally have P: "sqrt (?px\<^sup>2 + ?py\<^sup>2) \<le> ?R * ?q * (1 + 1 / 2 ^ 52)" .
  have "sqrt ((t_x (place_trip_with mcos msin cx cy u1 u2 t) - cx)\<^sup>2
             + (t_y (place_trip_with mcos msin cx cy u1 u2 t) - cy)\<^sup>2)
      = sqrt ((rnd (cx + ?px) - cx)\<^sup>2 + (rnd (cy + ?py) - cy)\<^sup>2)"
    by (simp add: place_trip_with_def Let_def)
  also have "\<dots> \<le> sqrt (cx\<^sup>2 + cy\<^sup>2) / 2 ^ 53 + ?q * sqrt (?px\<^sup>2 + ?py\<^sup>2)"
    by (rule rounded_sum_bound)
  also have "\<dots> \<le> sqrt (cx\<^sup>2 + cy\<^sup>2) / 2 ^ 53 + ?q * (?R * ?q * (1 + 1 / 2 ^ 52))"
    using P q by (intro add_left_mono mult_left_mono) simp_all
  also have "?q * (?R * ?q * (1 + 1 / 2 ^ 52))
      = sqrt u1 * (0.8 * ROUTE_GROUP_RADIUS * (?q ^ 6 * (1 + 1 / 2 ^ 52)))"
    by (simp add: power_numeral_reduce)
  also have "sqrt (cx\<^sup>2 + cy\<^sup>2) / 2 ^ 53 + sqrt u1 * (0.8 * ROUTE_GROUP_RADIUS * (?q ^ 6 * (1 + 1 / 2 ^ 52)))
      < sqrt (cx\<^sup>2 + cy\<^sup>2) / 2 ^ 53 + 1 * (0.8 * ROUTE_GROUP_RADIUS * (?q ^ 6 * (1 + 1 / 2 ^ 52)))"
  proof (intro add_strict_left_mono mult_strict_right_mono)
    show "sqrt u1 < 1" using u by (simp add: real_sqrt_lt_1_iff)
    show "0 < 0.8 * ROUTE_GROUP_RADIUS * (?q ^ 6 * (1 + 1 / 2 ^ 52))"
      by (simp add: ROUTE_GROUP_RADIUS_def)
  qed
  finally show ?thesis by (simp add: add.commute)
qed


section \<open>Identifiers of the group nodes\<close>

lemma groups_of_append [simp]: "groups_of (xs @ ys) = groups_of xs @ groups_of ys"
  by (induction xs rule: groups_of.induct) auto

lemma place_trips_groups [simp]: "groups_of (fst (place_trips U rx ry ts n)) = []"
  by (induction ts arbitrary: n) (simp_all add: place_trips_fst_Cons del: place_trips.simps(2))

lemma place_routes_ids:
  "map g_id (groups_of (fst (place_routes U d p tr tx ty lr st rm k n))) = route_ids d p tr k rm"
proof (induction rm arbitrary: k n)
  case Nil
  then show ?case by (simp add: route_ids_def)
next
  case (Cons e rm)
  obtain r ts where e: "e = (r, ts)" by (cases e)
  have "[k..<k + length (e # rm)] = k # [Suc k..<Suc k + length rm]"
    using upt_conv_Cons [of k "k + length (e # rm)"] by simp
  then have "route_ids d p tr k (e # rm) = route_id d p tr k # route_ids d p tr (Suc k) rm"
    by (simp only: route_ids_def list.map)
  then show ?case
    unfolding e
    by (simp add: place_routes_fst_Cons Cons.IH route_node_def route_id_def del: place_routes.simps(2))
qed

lemma place_transports_ids:
  "map g_id (groups_of (fst (place_transports U d p px py lr st tm j n))) = transport_ids d p tm"
proof (induction tm arbitrary: j n)
  case Nil
  then show ?case by (simp add: transport_ids_def)
next
  case (Cons e tm)
  obtain tr rm where e: "e = (tr, rm)" by (cases e)
  have "transport_ids d p (e # tm)
      = (''trans_'' @ d @ ''_'' @ p @ ''_'' @ tr) # route_ids d p tr 0 rm @ transport_ids d p tm"
    by (simp add: transport_ids_def e)
  then show ?case
    unfolding e
    by (simp add: place_transports_fst_Cons Cons.IH place_routes_ids transport_node_def
        del: place_transports.simps(2))
qed

lemma place_purposes_ids:
  "map g_id (groups_of (fst (place_purposes U d dx dy st pm i n))) = purpose_ids d pm"
proof (induction pm arbitrary: i n)
  case Nil
  then show ?case by (simp add: purpose_ids_def)
next
  case (Cons e pm)
  obtain p tm where e: "e = (p, tm)" by (cases e)
  have "purpose_ids d (e # pm)
      = (''group_'' @ d @ ''_'' @ p) # transport_ids d p tm @ purpose_ids d pm"
    by (simp add: purpose_ids_def e)
  then show ?case
    unfolding e
    by (simp add: place_purposes_fst_Cons Cons.IH place_transports_ids purpose_node_def
        del: place_purposes.simps(2))
qed

lemma place_groups_ids:
  "fst ` set G \<subseteq> dom (map_of P) \<Longrightarrow>
   map g_id (groups_of (fst (place_groups U P G n))) = group_ids G"
proof (induction G arbitrary: n)
  case Nil
  then show ?case by (simp add: group_ids_def)
next
  case (Cons e G)
  obtain d pm where e: "e = (d, pm)" by (cases e)
  have a: "group_ids (e # G) = purpose_ids d pm @ group_ids G" by (simp add: e group_ids_def)
  from Cons.prems obtain dx dy where P: "map_of P d = Some (dx, dy)" by (auto simp: e)
  from Cons.prems have "fst ` set G \<subseteq> dom (map_of P)" by simp
  then show ?case
    using a unfolding e
    by (simp add: place_groups_fst_Cons P place_purposes_ids Cons.IH del: place_groups.simps(2))
qed

subsection \<open>Decimal numerals\<close>

lemma digits36_inj: "a < 10 \<Longrightarrow> b < 10 \<Longrightarrow> digits36 ! a = digits36 ! b \<Longrightarrow> a = b"
proof -
  have "distinct digits36" by (simp add: digits36_def)
  moreover have "length digits36 = 36" by (simp add: digits36_def)
  ultimately show "a < 10 \<Longrightarrow> b < 10 \<Longrightarrow> digits36 ! a = digits36 ! b \<Longrightarrow> a = b"
    by (simp add: nth_eq_iff_index_eq)
qed

lemma show_nat_nonempty: "show_nat n \<noteq> []"
  by (subst show_nat.simps) simp

lemma show_nat_inj: "show_nat n = show_nat m \<Longrightarrow> n = m"
proof (induction n arbitrary: m rule: show_nat.induct)
  case (1 n)
  show ?case
  proof (cases "n < 10")
    case True
    then have n: "show_nat n = [digits36 ! n]" by (subst show_nat.simps) simp
    show ?thesis
    proof (cases "m < 10")
      case True
      then have "show_nat m = [digits36 ! m]" by (subst show_nat.simps) simp
      with n "1.prems" \<open>n < 10\<close> True show ?thesis by (auto dest: digits36_inj)
    next
      case False
      then have "show_nat m = show_nat (m div 10) @ [digits36 ! (m mod 10)]"
        by (subst show_nat.simps) simp
      with n "1.prems" show_nat_nonempty [of "m div 10"] show ?thesis by (cases "show_nat (m div 10)") auto
    qed
  next
    case False
    then have n: "show_nat n = show_nat (n div 10) @ [digits36 ! (n mod 10)]"
      by (subst show_nat.simps) simp
    show ?thesis
    proof (cases "m < 10")
      case True
      then have "show_nat m = [digits36 ! m]" by (subst show_nat.simps) simp
      with n "1.prems" show_nat_nonempty [of "n div 10"] show ?thesis by (cases "show_nat (n div 10)") auto
    next
      case m: False
      then have "show_nat m = show_nat (m div 10) @ [digits36 ! (m mod 10)]"
        by (subst show_nat.simps) simp
      with n "1.prems" have "show_nat (n div 10) = show_nat (m div 10)"
        and "digits36 ! (n mod 10) = digits36 ! (m mod 10)" by auto
      then have "n div 10 = m div 10" and "n mod 10 = m mod 10"
        using "1.IH" [OF False] digits36_inj [of "n mod 10" "m mod 10"] by auto
      then show ?thesis by (metis div_mult_mod_eq)
    qed
  qed
qed

lemma route_ids_distinct: "distinct (route_ids d p tr k rm)"
  unfolding route_ids_def
  by (auto simp: distinct_map inj_on_def route_id_def dest: show_nat_inj)

subsection \<open>Reading names back from identifiers\<close>

lemma no_underscore_mem: "no_underscore a \<Longrightarrow> x \<in> set a \<Longrightarrow> x \<noteq> CHR ''_''"
  by (auto simp: no_underscore_def)

lemma us_head_app [simp]: "no_underscore a \<Longrightarrow> us_head (a @ CHR ''_'' # r) = a"
  by (simp add: us_head_def takeWhile_append2 no_underscore_mem)

lemma us_tail_app [simp]: "no_underscore a \<Longrightarrow> us_tail (a @ CHR ''_'' # r) = r"
  by (simp add: us_tail_def no_underscore_mem)

lemma us_head_id [simp]: "no_underscore a \<Longrightarrow> us_head a = a"
  by (simp add: us_head_def no_underscore_mem)

lemma tag_route:
  "no_underscore d \<Longrightarrow> no_underscore p \<Longrightarrow> no_underscore tr \<Longrightarrow>
   tag1 (route_id d p tr j) = d \<and> tag2 (route_id d p tr j) = p \<and> tag3 (route_id d p tr j) = tr"
  by (simp add: tag1_def tag2_def tag3_def route_id_def)

lemma tag_trans:
  "no_underscore d \<Longrightarrow> no_underscore p \<Longrightarrow> no_underscore tr \<Longrightarrow>
   tag1 (''trans_'' @ d @ ''_'' @ p @ ''_'' @ tr) = d
   \<and> tag2 (''trans_'' @ d @ ''_'' @ p @ ''_'' @ tr) = p
   \<and> tag3 (''trans_'' @ d @ ''_'' @ p @ ''_'' @ tr) = tr"
  by (simp add: tag1_def tag2_def tag3_def)

lemma tag_group:
  "no_underscore d \<Longrightarrow> no_underscore p \<Longrightarrow>
   tag1 (''group_'' @ d @ ''_'' @ p) = d \<and> tag2 (''group_'' @ d @ ''_'' @ p) = p"
  by (simp add: tag1_def tag2_def)

lemma distinct_concat_tagged:
  assumes "distinct (map fst m)"
    and "\<And>e. e \<in> set m \<Longrightarrow> distinct (F e)"
    and "\<And>e x. e \<in> set m \<Longrightarrow> x \<in> set (F e) \<Longrightarrow> tag x = fst e"
  shows "distinct (concat (map F m))"
  using assms
proof (induction m)
  case Nil
  then show ?case by simp
next
  case (Cons e m)
  have "x \<notin> set (F e')" if "x \<in> set (F e)" "e' \<in> set m" for x e'
  proof
    assume "x \<in> set (F e')"
    with that Cons.prems(3) have "fst e = fst e'" by (metis list.set_intros)
    with Cons.prems(1) that(2) show False by (auto simp: image_iff)
  qed
  with Cons show ?case by auto
qed

lemma transport_ids_mem:
  "x \<in> set (transport_ids d p tm) \<Longrightarrow>
   \<exists>e \<in> set tm. x = ''trans_'' @ d @ ''_'' @ p @ ''_'' @ fst e
      \<or> (\<exists>j. x = route_id d p (fst e) j)"
  by (auto simp: transport_ids_def route_ids_def)

lemma purpose_ids_mem:
  "x \<in> set (purpose_ids d pm) \<Longrightarrow>
   \<exists>e \<in> set pm. x = ''group_'' @ d @ ''_'' @ fst e \<or> x \<in> set (transport_ids d (fst e) (snd e))"
  by (auto simp: purpose_ids_def)

lemma transport_ids_tags:
  assumes "x \<in> set (transport_ids d p tm)" "no_underscore d" "no_underscore p" "ok_transports tm"
  shows "tag1 x = d \<and> tag2 x = p \<and> hd x \<noteq> CHR ''g''"
proof -
  from transport_ids_mem [OF assms(1)] obtain e where e: "e \<in> set tm"
    and x: "x = ''trans_'' @ d @ ''_'' @ p @ ''_'' @ fst e \<or> (\<exists>j. x = route_id d p (fst e) j)"
    by blast
  from e assms(4) have "no_underscore (fst e)" by (simp add: ok_transports_def)
  with x assms(2,3) tag_route tag_trans show ?thesis
    by (auto simp: route_id_def)
qed

lemma transport_ids_distinct:
  assumes "no_underscore d" "no_underscore p" "ok_transports tm"
  shows "distinct (transport_ids d p tm)"
  unfolding transport_ids_def
proof (rule distinct_concat_tagged [where tag = tag3])
  show "distinct (map fst tm)" using assms(3) by (simp add: ok_transports_def)
next
  fix e assume "e \<in> set tm"
  show "distinct ((''trans_'' @ d @ ''_'' @ p @ ''_'' @ fst e) # route_ids d p (fst e) 0 (snd e))"
    by (auto simp: route_ids_distinct) (auto simp: route_ids_def route_id_def)
next
  fix e x assume e: "e \<in> set tm"
    and x: "x \<in> set ((''trans_'' @ d @ ''_'' @ p @ ''_'' @ fst e) # route_ids d p (fst e) 0 (snd e))"
  from e assms(3) have "no_underscore (fst e)" by (simp add: ok_transports_def)
  with x assms(1,2) tag_route [of d p "fst e"] tag_trans [of d p "fst e"] show "tag3 x = fst e"
    by (auto simp: route_ids_def)
qed

lemma purpose_ids_tags:
  assumes "x \<in> set (purpose_ids d pm)" "no_underscore d" "ok_purposes pm"
  shows "tag1 x = d"
proof -
  from purpose_ids_mem [OF assms(1)] obtain e where e: "e \<in> set pm"
    and x: "x = ''group_'' @ d @ ''_'' @ fst e \<or> x \<in> set (transport_ids d (fst e) (snd e))"
    by blast
  from e assms(3) have "no_underscore (fst e)" "ok_transports (snd e)" by (simp_all add: ok_purposes_def)
  with x assms(2) tag_group transport_ids_tags show ?thesis by blast
qed

lemma purpose_ids_distinct:
  assumes "no_underscore d" "ok_purposes pm"
  shows "distinct (purpose_ids d pm)"
  unfolding purpose_ids_def
proof (rule distinct_concat_tagged [where tag = tag2])
  show "distinct (map fst pm)" using assms(2) by (simp add: ok_purposes_def)
next
  fix e assume e: "e \<in> set pm"
  with assms(2) have ok: "no_underscore (fst e)" "ok_transports (snd e)" by (simp_all add: ok_purposes_def)
  have "''group_'' @ d @ ''_'' @ fst e \<notin> set (transport_ids d (fst e) (snd e))"
    using transport_ids_tags [OF _ assms(1) ok] by fastforce
  with transport_ids_distinct [OF assms(1) ok]
  show "distinct ((''group_'' @ d @ ''_'' @ fst e) # transport_ids d (fst e) (snd e))" by simp
next
  fix e x assume e: "e \<in> set pm"
    and x: "x \<in> set ((''group_'' @ d @ ''_'' @ fst e) # transport_ids d (fst e) (snd e))"
  from e assms(2) have ok: "no_underscore (fst e)" "ok_transports (snd e)" by (simp_all add: ok_purposes_def)
  with x assms(1) tag_group [of d "fst e"] transport_ids_tags [of x d "fst e" "snd e"]
  show "tag2 x = fst e" by auto
qed

lemma group_ids_distinct:
  assumes "ok_groups G"
  shows "distinct (group_ids G)"
  unfolding group_ids_def
proof (rule distinct_concat_tagged [where tag = tag1])
  show "distinct (map fst G)" using assms by (simp add: ok_groups_def)
next
  fix e assume "e \<in> set G"
  with assms show "distinct (purpose_ids (fst e) (snd e))"
    by (simp add: ok_groups_def purpose_ids_distinct)
next
  fix e x assume "e \<in> set G" "x \<in> set (purpose_ids (fst e) (snd e))"
  with assms show "tag1 x = fst e"
    by (simp add: ok_groups_def purpose_ids_tags)
qed

lemma upsert_map_fst:
  "map fst (upsert k d f m) = (if k \<in> fst ` set m then map fst m else map fst m @ [k])"
  by (induction m) auto

lemma upsert_distinct: "distinct (map fst m) \<Longrightarrow> distinct (map fst (upsert k d f m))"
  by (simp add: upsert_map_fst)

lemma ok_groups_add_trip:
  assumes "ok_groups G" "no_underscore (t_department t)" "no_underscore (t_purpose t)" "no_underscore (transport_key t)"
  shows "ok_groups (add_trip t G)"
proof -
  let ?d = "t_department t" and ?p = "t_purpose t" and ?tr = "transport_key t" and ?r = "route_key t"
  let ?f3 = "upsert ?r [] (\<lambda>l. l @ [t])"
  have tr: "ok_transports (upsert ?tr [] ?f3 tm)" if "ok_transports tm" for tm
    unfolding ok_transports_def
  proof
    show "distinct (map fst (upsert ?tr [] ?f3 tm))"
      using that by (simp add: ok_transports_def upsert_distinct)
    show "\<forall>e \<in> set (upsert ?tr [] ?f3 tm). no_underscore (fst e)"
      by (rule upsert_pred [where Q = "\<lambda>k v. no_underscore k"])
         (use that assms(4) in \<open>auto simp: ok_transports_def\<close>)
  qed
  let ?f2 = "upsert ?tr [] ?f3"
  have p: "ok_purposes (upsert ?p [] ?f2 pm)" if "ok_purposes pm" for pm
    unfolding ok_purposes_def
  proof
    show "distinct (map fst (upsert ?p [] ?f2 pm))"
      using that by (simp add: ok_purposes_def upsert_distinct)
    show "\<forall>e \<in> set (upsert ?p [] ?f2 pm). no_underscore (fst e) \<and> ok_transports (snd e)"
    proof (rule upsert_pred [where Q = "\<lambda>k v. no_underscore k \<and> ok_transports v"])
      show "\<forall>e \<in> set pm. no_underscore (fst e) \<and> ok_transports (snd e)"
        using that by (simp add: ok_purposes_def)
      have "ok_transports []" by (simp add: ok_transports_def)
      then show "no_underscore ?p \<and> ok_transports (?f2 [])"
        using assms(3) tr by blast
      show "\<And>v. no_underscore ?p \<and> ok_transports v \<Longrightarrow> no_underscore ?p \<and> ok_transports (?f2 v)"
        by (simp add: tr)
    qed
  qed
  let ?f1 = "upsert ?p [] ?f2"
  show ?thesis
    unfolding ok_groups_def add_trip_def transport_key_def [symmetric] route_key_def [symmetric]
  proof
    show "distinct (map fst (upsert ?d [] ?f1 G))"
      using assms(1) by (simp add: ok_groups_def upsert_distinct)
    show "\<forall>e \<in> set (upsert ?d [] ?f1 G). no_underscore (fst e) \<and> ok_purposes (snd e)"
    proof (rule upsert_pred [where Q = "\<lambda>k v. no_underscore k \<and> ok_purposes v"])
      show "\<forall>e \<in> set G. no_underscore (fst e) \<and> ok_purposes (snd e)"
        using assms(1) by (simp add: ok_groups_def)
      have "ok_purposes []" by (simp add: ok_purposes_def)
      then show "no_underscore ?d \<and> ok_purposes (?f1 [])"
        using assms(2) p by blast
      show "\<And>v. no_underscore ?d \<and> ok_purposes v \<Longrightarrow> no_underscore ?d \<and> ok_purposes (?f1 v)"
        by (simp add: p)
    qed
  qed
qed

lemma ok_groups_fold:
  "ok_groups G \<Longrightarrow>
   \<forall>t \<in> set ts. no_underscore (t_department t) \<and> no_underscore (t_purpose t) \<and> no_underscore (transport_key t) \<Longrightarrow>
   ok_groups (fold add_trip ts G)"
  by (induction ts arbitrary: G) (simp_all add: ok_groups_add_trip)

subsection \<open>All identifiers\<close>

lemma groups_of_set: "g \<in> set (groups_of ns) \<longleftrightarrow> GroupNode g \<in> set ns"
  by (induction ns rule: groups_of.induct) auto

lemma distinct_ids_split:
  "list_all below_dept ns \<Longrightarrow> distinct (map g_id (groups_of ns)) \<Longrightarrow>
   distinct (map t_id (trips_of ns)) \<Longrightarrow>
   (\<And>g t. g \<in> set (groups_of ns) \<Longrightarrow> t \<in> set (trips_of ns) \<Longrightarrow> g_id g \<noteq> t_id t) \<Longrightarrow>
   distinct (map node_id ns)"
proof (induction ns)
  case Nil
  then show ?case by simp
next
  case (Cons n ns)
  have ids: "node_id ` set ns = g_id ` set (groups_of ns) \<union> t_id ` set (trips_of ns)"
    if "list_all below_dept ns" for ns
    using that
  proof (induction ns)
    case (Cons a ns)
    then show ?case by (cases a) (auto simp: below_dept_def)
  qed simp
  from Cons.prems(1) have b: "list_all below_dept ns" by simp
  show ?case
  proof (cases n)
    case (DeptNode d)
    with Cons.prems(1) show ?thesis by (simp add: below_dept_def)
  next
    case (GroupNode g)
    with Cons.prems have "g_id g \<notin> g_id ` set (groups_of ns)" "g_id g \<notin> t_id ` set (trips_of ns)"
      by auto
    with Cons GroupNode ids [OF b] show ?thesis by auto
  next
    case (TripNode t)
    with Cons.prems have "t_id t \<notin> t_id ` set (trips_of ns)" "t_id t \<notin> g_id ` set (groups_of ns)"
      by (auto simp: image_iff) metis
    with Cons TripNode ids [OF b] show ?thesis by auto
  qed
qed

lemma distinct_map_via:
  "distinct (map g xs) \<Longrightarrow>
   (\<And>x y. x \<in> set xs \<Longrightarrow> y \<in> set xs \<Longrightarrow> f x = f y \<Longrightarrow> g x = g y) \<Longrightarrow>
   distinct (map f xs)"
proof (induction xs)
  case Nil
  then show ?case by simp
next
  case (Cons a xs)
  then show ?case by (auto simp: image_iff)
qed

lemma position_depts_ids [simp]: "map d_id (position_depts ds) = map d_id ds"
  by (rule nth_equalityI) (simp_all add: position_depts_nth place_dept_def Let_def)

lemma final_depts_ids: "map d_id (final_depts rows) = map (\<lambda>k. ''dept_'' @ k) (dept_names rows)"
  by (simp add: final_depts_def comp_def set_radius_def agg_dept_def new_dept_def)

lemma run_trips_origin:
  "t \<in> set (s_trips (run U rows)) \<Longrightarrow>
   \<exists>r n. r \<in> set rows \<and> accepted r \<and> t = make_trip U n (dept_key r) r"
proof (induction rows rule: rev_induct)
  case Nil
  then show ?case by (simp add: init_state_def)
next
  case (snoc r rows)
  show ?case
  proof (cases "accepted r")
    case False
    with snoc show ?thesis by (auto simp: run_snoc process_row_skip)
  next
    case True
    with snoc.prems consider "t \<in> set (s_trips (run U rows))"
      | "t = make_trip U (s_rand (run U rows)) (dept_key r) r"
      by (auto simp: run_snoc process_row_accept)
    then show ?thesis
    proof cases
      case 1
      from snoc.IH [OF 1] show ?thesis by auto
    next
      case 2
      with True show ?thesis by auto
    qed
  qed
qed

lemma run_trips_ids:
  "\<forall>r \<in> set rows. accepted r \<longrightarrow> \<not> uses_random r \<Longrightarrow>
   map t_id (s_trips (run U rows))
     = map (\<lambda>r. ''trip_'' @ text_or (Trip_ID r) []) (filter accepted rows)"
proof (induction rows rule: rev_induct)
  case Nil
  then show ?case by (simp add: init_state_def)
next
  case (snoc r rows)
  then show ?case
    by (cases "accepted r")
       (auto simp: run_snoc process_row_skip process_row_accept make_trip_def trip_key_def
          uses_random_def split: option.splits)
qed

lemma group_keys_positioned:
  "fst ` set (fold add_trip (s_trips (run U rows)) [])
     \<subseteq> dom (map_of (dept_positions (final_depts rows)))"
proof -
  let ?G = "fold add_trip (s_trips (run U rows)) []"
  have "fst ` set ?G = t_department ` set (s_trips (run U rows))"
    by (simp add: group_keys_fold)
  also have "\<dots> = set (map t_department (s_trips (run U rows)))" by simp
  also have "\<dots> = set (dept_names rows)"
    by (simp only: run_trips_department set_dept_names set_map)
  also have "\<dots> = dom (map_of (dept_positions (final_depts rows)))"
    by (simp only: dept_positions_dom final_depts_names [symmetric] set_map)
  finally show ?thesis by simp
qed

lemma trip_ids_of_nodes:
  "mset (map t_id (trips_of (group_nodes U rows))) = mset (map t_id (s_trips (run U rows)))"
proof -
  have "t_id \<circ> unplace = t_id" by (auto simp: unplace_def)
  then have "mset (map t_id (trips_of (group_nodes U rows)))
      = image_mset t_id (image_mset unplace (mset (trips_of (group_nodes U rows))))"
    by (simp add: image_mset.compositionality)
  also have "\<dots> = mset (map t_id (s_trips (run U rows)))"
    using group_nodes_trips [of U rows] by simp
  finally show ?thesis .
qed

lemma trip_id_tag: "t \<in> set (trips_of (group_nodes U rows)) \<Longrightarrow> take 3 (t_id t) = ''tri''"
proof -
  assume "t \<in> set (trips_of (group_nodes U rows))"
  then have "t_id t \<in> set_mset (mset (map t_id (trips_of (group_nodes U rows))))" by simp
  then have "t_id t \<in> t_id ` set (s_trips (run U rows))"
    by (simp only: trip_ids_of_nodes) simp
  then obtain t0 where "t0 \<in> set (s_trips (run U rows))" "t_id t = t_id t0" by auto
  with run_trips_origin show ?thesis by (fastforce simp: make_trip_def)
qed

lemma node_id_tag:
  "n \<in> set (nodes (processEmissionsData U rows)) \<Longrightarrow>
   take 3 (node_id n) = id_tag (node_type n)
   \<and> node_type n \<in> {''department'', ''purpose-group'', ''transport-group'', ''route-group'', ''trip''}"
proof -
  assume "n \<in> set (nodes (processEmissionsData U rows))"
  then consider d where "n = DeptNode d" "d \<in> set (final_depts rows)"
    | "n \<in> set (group_nodes U rows)"
    by (auto simp: processEmissionsData_run)
  then show ?thesis
  proof cases
    case 1
    then have "d_id d \<in> set (map d_id (final_depts rows))" by simp
    then have "\<exists>k. d_id d = ''dept_'' @ k" by (auto simp only: final_depts_ids set_map)
    with 1 show ?thesis by (auto simp: id_tag_def)
  next
    case 2
    then have b: "below_dept n" using group_nodes_below [of U rows] by (simp add: list_all_iff)
    show ?thesis
    proof (cases n)
      case (DeptNode d)
      with b show ?thesis by (simp add: below_dept_def)
    next
      case (GroupNode g)
      with b show ?thesis by (auto simp: below_dept_def)
    next
      case (TripNode t)
      with 2 have "t \<in> set (trips_of (group_nodes U rows))" by (simp add: trips_of_set)
      with TripNode trip_id_tag show ?thesis by (simp add: id_tag_def)
    qed
  qed
qed

lemma id_tag_inj:
  "a \<in> {''department'', ''purpose-group'', ''transport-group'', ''route-group'', ''trip''} \<Longrightarrow>
   b \<in> {''department'', ''purpose-group'', ''transport-group'', ''route-group'', ''trip''} \<Longrightarrow>
   id_tag a = id_tag b \<Longrightarrow> a = b"
  by (auto simp: id_tag_def split: if_splits)

lemma group_ids_tagged:
  "g \<in> set (groups_of (group_nodes U rows)) \<Longrightarrow> take 3 (g_id g) \<in> {''gro'', ''tra'', ''rou''}"
proof -
  assume "g \<in> set (groups_of (group_nodes U rows))"
  then have "GroupNode g \<in> set (group_nodes U rows)" by (simp add: groups_of_set)
  then have "below_dept (GroupNode g)"
    using group_nodes_below [of U rows] by (simp add: list_all_iff)
  then show ?thesis by (auto simp: below_dept_def id_tag_def)
qed

lemma group_nodes_ids_distinct:
  assumes rows: "\<forall>r \<in> set rows. accepted r \<longrightarrow>
        \<not> uses_random r \<and> no_underscore (dept_key r)
        \<and> no_underscore (text_or (Purpose r) ''Other'')
        \<and> no_underscore (text_or (Shipping_Type r) ''Other'')"
    and ids: "distinct (map Trip_ID (filter accepted rows))"
  shows "distinct (map node_id (group_nodes U rows))"
proof (rule distinct_ids_split)
  let ?G = "fold add_trip (s_trips (run U rows)) []"
  show "list_all below_dept (group_nodes U rows)" by (rule group_nodes_below)
  have "no_underscore (t_department t) \<and> no_underscore (t_purpose t) \<and> no_underscore (transport_key t)"
    if t: "t \<in> set (s_trips (run U rows))" for t
  proof -
    from run_trips_origin [OF t] obtain r n where r: "r \<in> set rows" "accepted r"
      and t': "t = make_trip U n (dept_key r) r" by blast
    from run_trips_keys [OF t] have "transport_key t = t_transportMode t" by simp
    with r rows show ?thesis by (auto simp: t' make_trip_def)
  qed
  moreover have "ok_groups []" by (simp add: ok_groups_def)
  ultimately have "ok_groups ?G" by (intro ok_groups_fold) auto
  then have "distinct (group_ids ?G)" by (rule group_ids_distinct)
  moreover have "map g_id (groups_of (group_nodes U rows)) = group_ids ?G"
    unfolding group_nodes_def by (rule place_groups_ids) (rule group_keys_positioned)
  ultimately show "distinct (map g_id (groups_of (group_nodes U rows)))" by simp
  have "distinct (map (\<lambda>r. ''trip_'' @ text_or (Trip_ID r) []) (filter accepted rows))"
    using ids
  proof (rule distinct_map_via)
    fix x y assume "x \<in> set (filter accepted rows)" "y \<in> set (filter accepted rows)"
      and "''trip_'' @ text_or (Trip_ID x) [] = ''trip_'' @ text_or (Trip_ID y) []"
    then have x: "x \<in> set rows" "accepted x" and y: "y \<in> set rows" "accepted y"
      and e: "text_or (Trip_ID x) [] = text_or (Trip_ID y) []" by auto
    have "Trip_ID r = Some (text_or (Trip_ID r) [])" if "r \<in> set rows" "accepted r" for r
      using rows that by (auto simp: uses_random_def split: option.splits)
    from this [OF x] this [OF y] e show "Trip_ID x = Trip_ID y" by simp
  qed
  moreover have "\<forall>r \<in> set rows. accepted r \<longrightarrow> \<not> uses_random r" using rows by blast
  ultimately have "distinct (map t_id (s_trips (run U rows)))"
    by (simp add: run_trips_ids)
  then show "distinct (map t_id (trips_of (group_nodes U rows)))"
    using mset_eq_imp_distinct_iff [OF trip_ids_of_nodes [of U rows]] by blast
next
  fix g t assume "g \<in> set (groups_of (group_nodes U rows))" "t \<in> set (trips_of (group_nodes U rows))"
  with group_ids_tagged trip_id_tag have "take 3 (g_id g) \<noteq> take 3 (t_id t)" by fastforce
  then show "g_id g \<noteq> t_id t" by auto
qed

lemma ids_row_distinct:
  "map node_id (nodes (processEmissionsData U_half row_distinct))
     = [''dept_Engineering'', ''group_Engineering_Training'', ''trans_Engineering_Training_Air'',
        ''route_Engineering_Training_Air_0'', ''trip_T1'', ''trip_T2'']"
  by (simp add: eval_defs row_distinct_def row_engineering_def)

lemma underscore_ids_collide:
  "map node_id (nodes (processEmissionsData U_half row_underscore)) ! 2 = ''group_A_B_C''
   \<and> map node_id (nodes (processEmissionsData U_half row_underscore)) ! 6 = ''group_A_B_C''"
  by (simp add: eval_defs row_underscore_def row_engineering_def)
section \<open>Level of detail: the claims\<close>

text \<open>
  C4.  For a node kind with a threshold entry the opacity lies between 0 and 1; it is 0
  at every zoom outside the window from \<open>min\<close> (included) to \<open>max\<close> (excluded); with
  an unbounded \<open>max\<close> it is 1 everywhere in the window; with a finite \<open>max\<close> it is the
  linear fade \<open>(max - zoom) / 0.5\<close> on the part of the window that lies within 0.5 of
  \<open>max\<close>.
\<close>

theorem getLayerOpacity_window:
  assumes "map_of T kind = Some th"
  shows "0 \<le> layerOpacity T kind z \<and> layerOpacity T kind z \<le> 1
    \<and> (z < th_min th \<longrightarrow> layerOpacity T kind z = 0)
    \<and> (\<forall>m. th_max th = Some m \<and> m \<le> z \<longrightarrow> layerOpacity T kind z = 0)
    \<and> (th_max th = None \<and> th_min th \<le> z \<longrightarrow> layerOpacity T kind z = 1)
    \<and> (\<forall>m. th_max th = Some m \<and> th_min th \<le> z \<and> m - 0.5 < z \<and> z < m
          \<longrightarrow> layerOpacity T kind z = (m - z) / 0.5)"
  using assms by (auto simp: layerOpacity_def fadeRange_def split: option.splits)

theorem getLayerOpacity_window_witness:
  "map_of [(''route'', \<lparr>th_min = 7.5, th_max = Some 12\<rparr>)] ''route''
     = Some \<lparr>th_min = 7.5, th_max = Some 12\<rparr>
   \<and> layerOpacity [(''route'', \<lparr>th_min = 7.5, th_max = Some 12\<rparr>)] ''route'' 11.75 = 1 / 2
   \<and> layerOpacity [(''route'', \<lparr>th_min = 7.5, th_max = Some 12\<rparr>)] ''route'' 12 = 0
   \<and> layerOpacity [(''route'', \<lparr>th_min = 7.5, th_max = Some 12\<rparr>)] ''route'' 7 = 0"
  using getLayerOpacity_window
    [of "[(''route'', \<lparr>th_min = 7.5, th_max = Some 12\<rparr>)]" "''route''"
        "\<lparr>th_min = 7.5, th_max = Some 12\<rparr>" "11.75"]
    getLayerOpacity_window
    [of "[(''route'', \<lparr>th_min = 7.5, th_max = Some 12\<rparr>)]" "''route''"
        "\<lparr>th_min = 7.5, th_max = Some 12\<rparr>" "12"]
    getLayerOpacity_window
    [of "[(''route'', \<lparr>th_min = 7.5, th_max = Some 12\<rparr>)]" "''route''"
        "\<lparr>th_min = 7.5, th_max = Some 12\<rparr>" "7"]
  by simp

text \<open>
  C5.  With the reference thresholds the kinds of positive opacity are: the department
  alone at zoom 3; department, trip and purpose at zoom 5; all five kinds at zoom 8.
\<close>

theorem active_kinds_reference:
  "[k \<leftarrow> map fst ZOOM_THRESHOLDS. 0 < getLayerOpacity k 3] = [''department'']
   \<and> [k \<leftarrow> map fst ZOOM_THRESHOLDS. 0 < getLayerOpacity k 5]
       = [''department'', ''trip'', ''purpose'']
   \<and> [k \<leftarrow> map fst ZOOM_THRESHOLDS. 0 < getLayerOpacity k 8]
       = [''department'', ''trip'', ''purpose'', ''transport'', ''route'']"
  by (simp add: ZOOM_THRESHOLDS_def getLayerOpacity_def layerOpacity_def)

section \<open>Aggregation: the claims\<close>

text \<open>
  C1, as the code has it.  For every input, the departments carry, in first-seen order,
  the sum of the emissions of the rows assigned to them (added in row order) and the
  number of those rows; the department nodes of the node list are these departments; the
  trip leaves of a department carry exactly the emission values of its rows; and a
  purpose, transport or route group node has no \<open>emissions\<close> and no \<open>tripCount\<close>
  property at all.
\<close>

theorem department_totals:
  "map (\<lambda>d. (d_name d, d_emissions d, d_tripCount d)) (departments (processEmissionsData U rows))
     = map (\<lambda>k. (k, dept_sum k rows, length (rows_of k rows))) (dept_names rows)
   \<and> [n \<leftarrow> nodes (processEmissionsData U rows). node_type n = ''department'']
       = map DeptNode (departments (processEmissionsData U rows))
   \<and> (\<forall>k. mset (map t_emissions
                 [t \<leftarrow> trips_of (nodes (processEmissionsData U rows)). t_department t = k])
           = mset (map row_emissions (rows_of k rows)))
   \<and> (\<forall>n \<in> set (nodes (processEmissionsData U rows)).
         node_type n \<noteq> ''department'' \<and> node_type n \<noteq> ''trip''
         \<longrightarrow> node_emissions n = None \<and> node_tripCount n = None)"
proof (intro conjI allI ballI impI)
  show "map (\<lambda>d. (d_name d, d_emissions d, d_tripCount d)) (departments (processEmissionsData U rows))
      = map (\<lambda>k. (k, dept_sum k rows, length (rows_of k rows))) (dept_names rows)"
    by (simp add: processEmissionsData_run final_depts_def position_depts_triple comp_def
        set_radius_def agg_dept_def new_dept_def)
next
  show "[n \<leftarrow> nodes (processEmissionsData U rows). node_type n = ''department'']
       = map DeptNode (departments (processEmissionsData U rows))"
    by (rule filter_department_nodes)
next
  fix k
  show "mset (map t_emissions
                 [t \<leftarrow> trips_of (nodes (processEmissionsData U rows)). t_department t = k])
           = mset (map row_emissions (rows_of k rows))"
    by (rule trip_leaves_of_department)
next
  fix n
  assume n: "n \<in> set (nodes (processEmissionsData U rows))"
    and ty: "node_type n \<noteq> ''department'' \<and> node_type n \<noteq> ''trip''"
  from n ty have "n \<in> set (group_nodes U rows)"
    by (auto simp: processEmissionsData_run)
  then have "below_dept n"
    using group_nodes_below [of U rows] by (simp add: list_all_iff)
  with ty show "node_emissions n = None" "node_tripCount n = None"
    using below_dept_metric by auto
qed

text \<open>The single-row scenario: one department with emissions 500 and one trip.\<close>

theorem department_totals_witness:
  "nodes (processEmissionsData U_half [row_engineering]) ! 1
     \<in> set (nodes (processEmissionsData U_half [row_engineering]))
   \<and> node_type (nodes (processEmissionsData U_half [row_engineering]) ! 1) = ''purpose-group''
   \<and> node_tripCount (nodes (processEmissionsData U_half [row_engineering]) ! 1) = None
   \<and> map (\<lambda>d. (d_name d, d_emissions d, d_tripCount d))
        (departments (processEmissionsData U_half [row_engineering]))
      = [(''Engineering'', Fin 500, 1)]"
proof -
  have len: "length (nodes (processEmissionsData U_half [row_engineering])) = 5"
    by (simp add: eval_defs row_engineering_def)
  have mem: "nodes (processEmissionsData U_half [row_engineering]) ! 1
     \<in> set (nodes (processEmissionsData U_half [row_engineering]))"
    by (rule nth_mem) (simp add: len)
  have ty: "node_type (nodes (processEmissionsData U_half [row_engineering]) ! 1) = ''purpose-group''"
    using second_node_row_engineering by (simp add: purpose_node_def)
  have names: "dept_names [row_engineering] = [''Engineering'']"
    by (simp add: dept_names_def first_seen_def accepted_def row_engineering_def dept_key_def)
  have agg: "dept_sum ''Engineering'' [row_engineering] = Fin 500"
     "length (rows_of ''Engineering'' [row_engineering]) = 1"
    by (simp_all add: dept_sum_def rows_of_def accepted_def row_engineering_def row_emissions_def num_or_def)
  show ?thesis
    using department_totals [of U_half "[row_engineering]"] mem ty names agg by simp
qed

text \<open>
  C1 as stated asks every group node to carry the sum of the emissions below it.  In the
  single-row scenario the three group nodes stand above a trip of emission 500 and read
  \<open>undefined\<close>.
\<close>

theorem purpose_group_has_no_metric:
  "map node_type (nodes (processEmissionsData U_half [row_engineering]))
     = [''department'', ''purpose-group'', ''transport-group'', ''route-group'', ''trip'']
   \<and> map node_emissions (nodes (processEmissionsData U_half [row_engineering]))
     = [Some (Fin 500), None, None, None, Some (Fin 500)]"
  by (simp add: eval_defs row_engineering_def)

text \<open>
  C3, as the code has it.  The identifiers of the departments are pairwise distinct, and
  two nodes of different kinds never share an identifier.  All identifiers are pairwise
  distinct when every accepted row carries a trip identifier, these are pairwise distinct,
  and no department, purpose or transport mode contains an underscore.
\<close>

theorem node_ids_distinct:
  "distinct (map d_id (departments (processEmissionsData U rows)))
   \<and> (\<forall>n \<in> set (nodes (processEmissionsData U rows)).
        \<forall>m \<in> set (nodes (processEmissionsData U rows)).
          node_type n \<noteq> node_type m \<longrightarrow> node_id n \<noteq> node_id m)
   \<and> ((\<forall>r \<in> set rows. accepted r \<longrightarrow>
          \<not> uses_random r \<and> no_underscore (dept_key r)
          \<and> no_underscore (text_or (Purpose r) ''Other'')
          \<and> no_underscore (text_or (Shipping_Type r) ''Other''))
        \<and> distinct (map Trip_ID (filter accepted rows))
       \<longrightarrow> distinct (map node_id (nodes (processEmissionsData U rows))))"
proof (intro conjI ballI impI)
  show d: "distinct (map d_id (departments (processEmissionsData U rows)))"
    by (simp add: processEmissionsData_run final_depts_ids distinct_map inj_on_def dept_names_def)
  show "node_id n \<noteq> node_id m"
    if "n \<in> set (nodes (processEmissionsData U rows))"
      "m \<in> set (nodes (processEmissionsData U rows))" "node_type n \<noteq> node_type m" for n m
  proof
    assume "node_id n = node_id m"
    with node_id_tag [OF that(1)] node_id_tag [OF that(2)]
    have "id_tag (node_type n) = id_tag (node_type m)" by simp
    with node_id_tag [OF that(1)] node_id_tag [OF that(2)] that(3) show False
      using id_tag_inj by blast
  qed
  assume H: "(\<forall>r \<in> set rows. accepted r \<longrightarrow>
          \<not> uses_random r \<and> no_underscore (dept_key r)
          \<and> no_underscore (text_or (Purpose r) ''Other'')
          \<and> no_underscore (text_or (Shipping_Type r) ''Other''))
        \<and> distinct (map Trip_ID (filter accepted rows))"
  then have g: "distinct (map node_id (group_nodes U rows))"
    by (intro group_nodes_ids_distinct) auto
  have "node_id n \<noteq> d_id dd" if "n \<in> set (group_nodes U rows)" "dd \<in> set (final_depts rows)" for n dd
  proof -
    from that(1) have n: "n \<in> set (nodes (processEmissionsData U rows))"
      by (simp add: processEmissionsData_run)
    from that(2) have "DeptNode dd \<in> set (nodes (processEmissionsData U rows))"
      by (simp add: processEmissionsData_run)
    from node_id_tag [OF this] have dep: "take 3 (d_id dd) = ''dep''" by (simp add: id_tag_def)
    from that(1) have "below_dept n" using group_nodes_below [of U rows] by (simp add: list_all_iff)
    then have "node_type n \<noteq> ''department''" by (rule below_dept_type)
    with node_id_tag [OF n] have "take 3 (node_id n) \<noteq> ''dep''"
      by (auto simp: id_tag_def)
    with dep show ?thesis by auto
  qed
  then have "d_id dd \<noteq> node_id n" if "n \<in> set (group_nodes U rows)" "dd \<in> set (final_depts rows)" for n dd
    using that by metis
  with d g show "distinct (map node_id (nodes (processEmissionsData U rows)))"
    by (auto simp: processEmissionsData_run comp_def)
qed

theorem node_ids_distinct_witness:
  "distinct (map Trip_ID (filter accepted row_distinct))
   \<and> length (filter accepted row_distinct) = 2
   \<and> distinct (map node_id (nodes (processEmissionsData U_half row_distinct)))
   \<and> distinct (map d_id (departments (processEmissionsData U_half row_distinct)))"
  using node_ids_distinct [of U_half row_distinct]
  by (simp add: row_distinct_def row_engineering_def accepted_def uses_random_def
      no_underscore_def dept_key_def)

text \<open>
  C3 as stated holds for every input.  Two rows with the same trip identifier yield two
  trip nodes with the same identifier.
\<close>

theorem duplicate_trip_ids_collide:
  "map node_id (nodes (processEmissionsData U_half row_duplicate))
     = [''dept_Engineering'', ''group_Engineering_Training'', ''trans_Engineering_Training_Air'',
        ''route_Engineering_Training_Air_0'', ''trip_T1'', ''trip_T1'']
   \<and> \<not> distinct (map node_id (nodes (processEmissionsData U_half row_duplicate)))"
  by (simp add: eval_defs row_duplicate_def row_engineering_def)

text \<open>
  C7.  A row whose department is missing (or empty) changes nothing: the result is the
  result of the input without that row, so it adds no node and nothing to any total.  The
  function is total, so skipping raises nothing.  Giving the row a department, when its
  emission is truthy, raises the trip count by exactly one.
\<close>

theorem missing_department_skipped:
  assumes "Business_Dept r = None \<or> Business_Dept r = Some []"
  shows "processEmissionsData U (xs @ r # ys) = processEmissionsData U (xs @ ys)
    \<and> (\<forall>d. d \<noteq> [] \<and> truthy (Carbon_Emission r) \<longrightarrow>
          counts_trips (processEmissionsData U (xs @ r\<lparr>Business_Dept := Some d\<rparr> # ys))
            = counts_trips (processEmissionsData U (xs @ r # ys)) + 1)"
proof -
  from assms have na: "\<not> accepted r" by (auto simp: accepted_def)
  have "accepted (r\<lparr>Business_Dept := Some d\<rparr>)" if "d \<noteq> []" "truthy (Carbon_Emission r)" for d
    using that by (simp add: accepted_def)
  with na show ?thesis
    by (simp add: processEmissionsData_skip) (simp add: processEmissionsData_run run_trips_length)
qed

theorem missing_department_skipped_witness:
  "Business_Dept row_no_dept = None
   \<and> processEmissionsData U_half ([row_engineering] @ row_no_dept # [])
       = processEmissionsData U_half ([row_engineering] @ [])
   \<and> truthy (Carbon_Emission row_no_dept)
   \<and> counts_trips (processEmissionsData U_half
        ([row_engineering] @ row_no_dept\<lparr>Business_Dept := Some ''Sales''\<rparr> # []))
       = counts_trips (processEmissionsData U_half ([row_engineering] @ row_no_dept # [])) + 1"
  using missing_department_skipped [of row_no_dept U_half "[row_engineering]" "[]"]
  by (simp add: row_no_dept_def row_engineering_def)

text \<open>
  C10, as the code has it.  A row whose emission cell is falsy is skipped like a row
  without the cell, whatever its department.  A trip node of emission 0 does appear,
  exactly when an accepted row holds its emission as a text that converts to NaN or to 0:
  the failed conversion is replaced by 0 after the row has passed the test.
\<close>

theorem falsy_emission_skipped:
  "(\<not> truthy (Carbon_Emission r) \<longrightarrow>
      processEmissionsData U (xs @ r # ys) = processEmissionsData U (xs @ ys))
   \<and> ((\<exists>t. TripNode t \<in> set (nodes (processEmissionsData U rows)) \<and> t_emissions t = Fin 0)
        \<longleftrightarrow> (\<exists>r \<in> set rows. accepted r \<and>
               (\<exists>s. Carbon_Emission r = JStr s \<and>
                    (StringToNumber s = NaN \<or> StringToNumber s = Fin 0))))"
proof (intro conjI impI)
  assume "\<not> truthy (Carbon_Emission r)"
  then have "\<not> accepted r" by (auto simp: accepted_def split: option.splits)
  then show "processEmissionsData U (xs @ r # ys) = processEmissionsData U (xs @ ys)"
    by (rule processEmissionsData_skip)
next
  have "(\<exists>t. TripNode t \<in> set (nodes (processEmissionsData U rows)) \<and> t_emissions t = Fin 0)
      \<longleftrightarrow> Fin 0 \<in> t_emissions ` set (trips_of (nodes (processEmissionsData U rows)))"
    unfolding trips_of_set [symmetric] by force
  also have "\<dots> \<longleftrightarrow> Fin 0 \<in> row_emissions ` set (filter accepted rows)"
    by (simp only: trip_node_emissions)
  also have "\<dots> \<longleftrightarrow> (\<exists>r \<in> set rows. accepted r \<and> row_emissions r = Fin 0)"
    by (auto simp: image_iff)
  also have "\<dots> \<longleftrightarrow> (\<exists>r \<in> set rows. accepted r \<and>
               (\<exists>s. Carbon_Emission r = JStr s \<and>
                    (StringToNumber s = NaN \<or> StringToNumber s = Fin 0)))"
    using zero_emission_row by blast
  finally show "(\<exists>t. TripNode t \<in> set (nodes (processEmissionsData U rows)) \<and> t_emissions t = Fin 0)
        \<longleftrightarrow> (\<exists>r \<in> set rows. accepted r \<and>
               (\<exists>s. Carbon_Emission r = JStr s \<and>
                    (StringToNumber s = NaN \<or> StringToNumber s = Fin 0)))" .
qed

theorem falsy_emission_skipped_witness:
  "\<not> truthy (Carbon_Emission row_zero)
   \<and> Business_Dept row_zero = Some ''Engineering''
   \<and> processEmissionsData U_half ([row_engineering] @ row_zero # [])
       = processEmissionsData U_half ([row_engineering] @ [])"
  using falsy_emission_skipped [of row_zero U_half "[row_engineering]" "[]"]
  by (simp add: row_zero_def row_engineering_def)

text \<open>
  C10 as stated excludes trip nodes of emission 0.  A row whose emission cell is the text
  \<open>N/A\<close> passes the test and yields a trip, and a department, of emission 0.
\<close>

theorem text_emission_gives_zero_trip:
  "truthy (Carbon_Emission row_text)
   \<and> map node_type (nodes (processEmissionsData U_half [row_text]))
     = [''department'', ''purpose-group'', ''transport-group'', ''route-group'', ''trip'']
   \<and> map node_emissions (nodes (processEmissionsData U_half [row_text]))
     = [Some (Fin 0), None, None, None, Some (Fin 0)]"
  by (simp add: eval_defs row_text_def row_engineering_def StringToNumber_def trim_def is_ws_def
      unsigned_decimal_def is_digit_def radix_digit_def digit_of_def)

section \<open>Layout: the claims\<close>

text \<open>
  C6.  The departments come in first-seen order of the accepted rows, the \<open>i\<close>-th one
  (counted from 0) lies at radius \<open>700 * sqrt i\<close> and angle \<open>i * 137.508\<close> degrees,
  they are the first nodes of the node list, and they do not depend on the random source:
  a second run yields the same departments.
\<close>

theorem department_spiral:
  "map d_name (departments (processEmissionsData U rows)) = dept_names rows
   \<and> map (\<lambda>d. (d_x d, d_y d)) (departments (processEmissionsData U rows))
       = map (\<lambda>i. (700 * sqrt (real i) * cos (real i * (137.508 * (pi / 180))),
                   700 * sqrt (real i) * sin (real i * (137.508 * (pi / 180)))))
           [0..<length (dept_names rows)]
   \<and> departments (processEmissionsData U' rows) = departments (processEmissionsData U rows)
   \<and> take (length (dept_names rows)) (nodes (processEmissionsData U rows))
       = map DeptNode (departments (processEmissionsData U rows))"
proof (intro conjI)
  show "map d_name (departments (processEmissionsData U rows)) = dept_names rows"
    by (simp add: processEmissionsData_run final_depts_names)
  have len: "length (final_depts rows) = length (dept_names rows)"
    by (simp add: final_depts_def)
  show "map (\<lambda>d. (d_x d, d_y d)) (departments (processEmissionsData U rows))
       = map (\<lambda>i. (700 * sqrt (real i) * cos (real i * (137.508 * (pi / 180))),
                   700 * sqrt (real i) * sin (real i * (137.508 * (pi / 180)))))
           [0..<length (dept_names rows)]"
    by (rule nth_equalityI)
       (simp_all add: processEmissionsData_run len, simp add: final_depts_def position_depts_nth
          place_dept_def Let_def spacing_def angleIncrement_def)
  show "departments (processEmissionsData U' rows) = departments (processEmissionsData U rows)"
    by (simp add: processEmissionsData_run)
  show "take (length (dept_names rows)) (nodes (processEmissionsData U rows))
       = map DeptNode (departments (processEmissionsData U rows))"
    by (simp add: processEmissionsData_run len)
qed

text \<open>
  C9.  When the random source yields values in \<open>[0, 1)\<close>, every trip node has its
  route group node in the node list (same department, purpose, transport mode and route);
  its coordinates are the binary64 results of \<open>routeX + r * Math.cos(angle)\<close> and
  \<open>routeY + r * Math.sin(angle)\<close> with \<open>r = ROUTE_GROUP_RADIUS * Math.sqrt(U1) * 0.8\<close>
  and \<open>angle = U2 * 2 * Math.PI\<close> for two consecutive draws \<open>U1\<close>, \<open>U2\<close>; and its
  distance from the centre of the route group is less than
  \<open>0.8 * ROUTE_GROUP_RADIUS * (1 + 2^-53)^6 * (1 + 2^-52)\<close> plus \<open>2^-53\<close> times the
  distance of the centre from the origin.
\<close>

theorem trip_near_route_centre:
  assumes "\<forall>i. 0 \<le> U i \<and> U i < 1"
    and "TripNode t \<in> set (nodes (processEmissionsData U rows))"
  shows "\<exists>g i. GroupNode g \<in> set (nodes (processEmissionsData U rows))
      \<and> g_type g = ''route-group'' \<and> g_department g = t_department t
      \<and> g_purpose g = Some (t_purpose t) \<and> g_transport g = Some (t_transportMode t)
      \<and> g_name g = t_route t
      \<and> t_x t = rnd (g_x g + rnd (rnd (rnd (ROUTE_GROUP_RADIUS * Math_sqrt (U i)) * rnd 0.8)
                                    * Math_cos (rnd (rnd (U (Suc i) * 2) * Math_PI))))
      \<and> t_y t = rnd (g_y g + rnd (rnd (rnd (ROUTE_GROUP_RADIUS * Math_sqrt (U i)) * rnd 0.8)
                                    * Math_sin (rnd (rnd (U (Suc i) * 2) * Math_PI))))
      \<and> sqrt ((t_x t - g_x g)\<^sup>2 + (t_y t - g_y g)\<^sup>2)
          < 0.8 * ROUTE_GROUP_RADIUS * ((1 + 1 / 2 ^ 53) ^ 6 * (1 + 1 / 2 ^ 52))
            + sqrt ((g_x g)\<^sup>2 + (g_y g)\<^sup>2) / 2 ^ 53"
proof -
  let ?G = "fold add_trip (s_trips (run U rows)) []"
  from assms(2) have "TripNode t \<in> set (group_nodes U rows)"
    by (auto simp: processEmissionsData_run)
  moreover have "wf_groups ?G"
    by (rule wf_groups_fold) (simp add: wf_groups_def)
  ultimately have "anchored U (group_nodes U rows) (set (all_trips ?G)) t"
    unfolding group_nodes_def by (intro place_groups_anchor)
  then obtain g i t0 where g: "GroupNode g \<in> set (group_nodes U rows)"
    and t0: "t0 \<in> set (all_trips ?G)"
    and ty: "g_type g = ''route-group''"
    and link: "g_department g = t_department t0" "g_purpose g = Some (t_purpose t0)"
      "g_transport g = Some (transport_key t0)" "g_name g = route_key t0"
    and t: "t = place_trip (g_x g) (g_y g) (U i) (U (Suc i)) t0"
    unfolding anchored_def by blast
  have "set (all_trips ?G) = set_mset (mset (all_trips ?G))" by simp
  also have "\<dots> = set (s_trips (run U rows))"
    by (simp only: all_trips_fold all_trips_Nil) simp
  finally have "t0 \<in> set (s_trips (run U rows))" using t0 by simp
  then have keys: "transport_key t0 = t_transportMode t0" "route_key t0 = t_route t0"
    using run_trips_keys by auto
  have x: "t_x t = rnd (g_x g + rnd (rnd (rnd (ROUTE_GROUP_RADIUS * Math_sqrt (U i)) * rnd 0.8)
                                    * Math_cos (rnd (rnd (U (Suc i) * 2) * Math_PI))))"
    and y: "t_y t = rnd (g_y g + rnd (rnd (rnd (ROUTE_GROUP_RADIUS * Math_sqrt (U i)) * rnd 0.8)
                                    * Math_sin (rnd (rnd (U (Suc i) * 2) * Math_PI))))"
    by (simp_all add: t place_trip_def place_trip_with_def Let_def)
  have u: "0 \<le> U i" "U i < 1" using assms(1) by simp_all
  have d: "sqrt ((t_x t - g_x g)\<^sup>2 + (t_y t - g_y g)\<^sup>2)
          < 0.8 * ROUTE_GROUP_RADIUS * ((1 + 1 / 2 ^ 53) ^ 6 * (1 + 1 / 2 ^ 52))
            + sqrt ((g_x g)\<^sup>2 + (g_y g)\<^sup>2) / 2 ^ 53"
    unfolding t place_trip_def
    by (rule place_trip_with_bound [OF u]) (rule allI, rule rounded_trig)
  from g have "GroupNode g \<in> set (nodes (processEmissionsData U rows))"
    by (simp add: processEmissionsData_run)
  with ty link keys x y d show ?thesis
    by (intro exI [of _ g] exI [of _ i]) (simp add: t)
qed

theorem trip_near_route_centre_witness:
  "(\<forall>i. 0 \<le> U_half i \<and> U_half i < 1)
   \<and> (\<exists>t g. TripNode t \<in> set (nodes (processEmissionsData U_half [row_engineering]))
        \<and> GroupNode g \<in> set (nodes (processEmissionsData U_half [row_engineering]))
        \<and> g_name g = t_route t
        \<and> sqrt ((t_x t - g_x g)\<^sup>2 + (t_y t - g_y g)\<^sup>2)
            < 0.8 * ROUTE_GROUP_RADIUS * ((1 + 1 / 2 ^ 53) ^ 6 * (1 + 1 / 2 ^ 52))
              + sqrt ((g_x g)\<^sup>2 + (g_y g)\<^sup>2) / 2 ^ 53)"
proof -
  have u: "\<forall>i. 0 \<le> U_half i \<and> U_half i < 1" by (simp add: U_half_def)
  have "\<exists>t. nodes (processEmissionsData U_half [row_engineering]) ! 4 = TripNode t"
    by (simp add: eval_defs row_engineering_def)
  then obtain t where "TripNode t \<in> set (nodes (processEmissionsData U_half [row_engineering]))"
    using nodes_single_row by auto
  from this trip_near_route_centre [OF u this] u show ?thesis by blast
qed

text \<open>
  C9 at a draw next to 1.  One row, and the draws \<open>U1 = 1 - 2^-52\<close>, \<open>U2 = 0\<close>: the
  only route group has its centre at \<open>(180, 0)\<close>, and the trip is stored at
  \<open>x = 3251035981008077 / 2^44\<close>, the binary64 number nearest to \<open>184.8\<close>, and
  \<open>y = 0\<close>.  Its distance from the centre, \<open>84442493013197 / 2^44\<close>, is larger than
  \<open>0.8 * ROUTE_GROUP_RADIUS = 4.8\<close>: the trip lies outside the disk.
\<close>

theorem trip_outside_route_disk:
  "(\<forall>i. 0 \<le> U_edge i \<and> U_edge i < 1)
   \<and> map node_type (nodes (processEmissionsData U_edge [row_engineering]))
       = [''department'', ''purpose-group'', ''transport-group'', ''route-group'', ''trip'']
   \<and> (\<exists>g t. nodes (processEmissionsData U_edge [row_engineering]) ! 3 = GroupNode g
        \<and> nodes (processEmissionsData U_edge [row_engineering]) ! 4 = TripNode t
        \<and> g_department g = t_department t \<and> g_purpose g = Some (t_purpose t)
        \<and> g_transport g = Some (t_transportMode t) \<and> g_name g = t_route t
        \<and> g_x g = 180 \<and> g_y g = 0
        \<and> t_x t = 3251035981008077 / 17592186044416 \<and> t_y t = 0
        \<and> sqrt ((t_x t - g_x g)\<^sup>2 + (t_y t - g_y g)\<^sup>2) = 84442493013197 / 17592186044416
        \<and> 0.8 * ROUTE_GROUP_RADIUS < sqrt ((t_x t - g_x g)\<^sup>2 + (t_y t - g_y g)\<^sup>2))"
proof -
  let ?ns = "nodes (processEmissionsData U_edge [row_engineering])"
  have u: "\<forall>i. 0 \<le> U_edge i \<and> U_edge i < 1" by (simp add: U_edge_def)
  have ty: "map node_type ?ns
       = [''department'', ''purpose-group'', ''transport-group'', ''route-group'', ''trip'']"
    by (simp add: eval_defs row_engineering_def)
  obtain g where g: "?ns ! 3 = GroupNode g" "g_department g = ''Engineering''"
      "g_purpose g = Some ''Training''" "g_transport g = Some ''Air''"
      "g_name g = ''NYC'' @ arrow @ ''SF''" "g_x g = 180" "g_y g = 0"
    by (simp add: eval_defs row_engineering_def DEPT_CLUSTER_RADIUS_def)
  obtain t where t: "?ns ! 4 = TripNode t" "t_department t = ''Engineering''"
      "t_purpose t = ''Training''" "t_transportMode t = ''Air''"
      "t_route t = ''NYC'' @ arrow @ ''SF''"
      "t_x t = 3251035981008077 / 17592186044416" "t_y t = 0"
    by (simp add: eval_defs row_engineering_def DEPT_CLUSTER_RADIUS_def place_trip_edge)
  have "sqrt ((t_x t - g_x g)\<^sup>2 + (t_y t - g_y g)\<^sup>2) = \<bar>t_x t - g_x g\<bar>"
    by (simp add: t g)
  then have d: "sqrt ((t_x t - g_x g)\<^sup>2 + (t_y t - g_y g)\<^sup>2) = 84442493013197 / 17592186044416"
    by (simp add: t g)
  have "0.8 * ROUTE_GROUP_RADIUS < (84442493013197 / 17592186044416 :: real)"
    by (simp add: ROUTE_GROUP_RADIUS_def)
  with d have far: "0.8 * ROUTE_GROUP_RADIUS < sqrt ((t_x t - g_x g)\<^sup>2 + (t_y t - g_y g)\<^sup>2)"
    by simp
  have link: "g_department g = t_department t" "g_purpose g = Some (t_purpose t)"
      "g_transport g = Some (t_transportMode t)" "g_name g = t_route t"
    by (simp_all only: g t)
  show ?thesis
    by (intro conjI exI [of _ g] exI [of _ t]) (rule u ty g t link d far)+
qed

section \<open>Scene composition: the claims\<close>

text \<open>
  C8 at the input on which the code departs from it: the empty row sequence aggregates to
  the empty result, but the composer, at zoom 5 on the empty node list, returns the two
  purpose layers with empty data.  The purpose, transport and route layer constructors
  do not test for an empty selection as the trip and department constructors do.
\<close>

theorem empty_input_layers_at_zoom_5:
  "processEmissionsData U_half []
     = \<lparr>nodes = [], departments = [], totalEmissions = Fin 0,
        counts_departments = 0, counts_trips = 0\<rparr>
   \<and> createAllTextLayers (nodes (processEmissionsData U_half [])) 5
     = [\<lparr>l_id = ''purpose-highlight-layer'', l_class = ScatterplotLayer, l_data = [],
         l_pickable = False, l_opacity = Some 0.2\<rparr>,
        \<lparr>l_id = ''purpose-label-layer'', l_class = TextLayer, l_data = [],
         l_pickable = False, l_opacity = None\<rparr>]"
  by (simp add: eval_defs layer_defs)

text \<open>
  C2, as the code has it.  With a non-empty set of search matches (and the data loaded)
  the search-highlight layer is the first element of the layer list, below every layer
  of \<open>createAllTextLayers\<close>; it is the same descriptor at every zoom and sets no
  \<open>opacity\<close> property.
\<close>

theorem search_highlight_first:
  assumes "searchMatches a = Some ms" and "ms \<noteq> []" and "graphData a = Some g"
  shows "getLayers a =
     Some (\<lparr>l_id = ''search-highlight'', l_class = ScatterplotLayer, l_data = ms,
            l_pickable = False, l_opacity = None\<rparr>
           # createAllTextLayers (nodes g) (currentZoom a))"
  using assms by (simp add: getLayers_def createSearchHighlightLayer_def push_layer_def)

theorem search_highlight_first_witness:
  "searchMatches app_search = Some (nodes (processEmissionsData U_half [row_engineering]))
   \<and> nodes (processEmissionsData U_half [row_engineering]) \<noteq> []
   \<and> graphData app_search = Some (processEmissionsData U_half [row_engineering])
   \<and> map_option (\<lambda>ls. l_id (hd ls)) (getLayers app_search) = Some ''search-highlight''"
proof -
  have ne: "nodes (processEmissionsData U_half [row_engineering]) \<noteq> []"
    using nodes_row_engineering by auto
  show ?thesis
    using search_highlight_first [of app_search "nodes (processEmissionsData U_half [row_engineering])"
        "processEmissionsData U_half [row_engineering]"] ne
    by (simp add: app_search_def)
qed

text \<open>
  C2 as stated puts the search-highlight layer last.  At zoom 3.5, with the single-row
  scenario loaded and all its nodes matched, it is first and the department text layer
  is last.
\<close>

theorem search_highlight_not_last:
  "map_option (map l_id) (getLayers app_search)
     = Some [''search-highlight'', ''department-circle-layer'', ''department-text-layer'']"
  apply (simp add: getLayers_def app_search_def layer_defs)
  apply (simp add: eval_defs row_engineering_def)
  done

end
